theory Spec2Isabelle
  imports Complex_Main "HOL-Library.Word"
begin

section \<open>Class lists of DOM elements\<close>

text \<open>
  \<^verbatim>\<open>element.classList\<close> is an ordered set of tokens. \<^verbatim>\<open>add\<close> appends a token that
  is not yet present, \<^verbatim>\<open>remove\<close> deletes it, \<^verbatim>\<open>contains\<close> tests membership.
  The script only ever passes one token to each call.
\<close>

type_synonym classList = "string list"

definition classList_contains :: "string \<Rightarrow> classList \<Rightarrow> bool" where
  "classList_contains c cl = (c \<in> set cl)"

definition classList_add :: "string \<Rightarrow> classList \<Rightarrow> classList" where
  "classList_add c cl = (if c \<in> set cl then cl else cl @ [c])"

definition classList_remove :: "string \<Rightarrow> classList \<Rightarrow> classList" where
  "classList_remove c cl = filter (\<lambda>x. x \<noteq> c) cl"

section \<open>Theme toggle and theme restoration\<close>

text \<open>
  The part of the page that \<^verbatim>\<open>toggleTheme\<close> and \<^verbatim>\<open>loadTheme\<close> touch: the class
  lists of \<^verbatim>\<open>document.body\<close> and of the element \<^verbatim>\<open>#themeIcon\<close>, and the
  browser's \<^verbatim>\<open>localStorage\<close>, a map from keys to values in which
  \<^verbatim>\<open>getItem\<close> of an absent key yields \<^verbatim>\<open>null\<close> (\<open>None\<close>).
  Both elements are taken to exist and the store to be writable.
\<close>

record theme_state =
  body_classes :: classList
  themeIcon_classes :: classList
  localStorage :: "string \<rightharpoonup> string"

definition toggleTheme :: "theme_state \<Rightarrow> theme_state" where
  "toggleTheme s =
     (let isDarkMode = classList_contains ''dark-mode'' (body_classes s) in
      if isDarkMode then
        s\<lparr> body_classes :=
             classList_add ''light-mode'' (classList_remove ''dark-mode'' (body_classes s)),
           themeIcon_classes :=
             classList_add ''bx-sun'' (classList_remove ''bx-moon'' (themeIcon_classes s)),
           localStorage := (localStorage s)(''theme'' \<mapsto> ''light'') \<rparr>
      else
        s\<lparr> body_classes :=
             classList_add ''dark-mode'' (classList_remove ''light-mode'' (body_classes s)),
           themeIcon_classes :=
             classList_add ''bx-moon'' (classList_remove ''bx-sun'' (themeIcon_classes s)),
           localStorage := (localStorage s)(''theme'' \<mapsto> ''dark'') \<rparr>)"

definition loadTheme :: "theme_state \<Rightarrow> theme_state" where
  "loadTheme s =
     (let savedTheme = localStorage s ''theme'' in
      if savedTheme = Some ''light'' then
        s\<lparr> body_classes :=
             classList_add ''light-mode'' (classList_remove ''dark-mode'' (body_classes s)),
           themeIcon_classes :=
             classList_add ''bx-sun'' (classList_remove ''bx-moon'' (themeIcon_classes s)) \<rparr>
      else
        s\<lparr> body_classes := classList_add ''dark-mode'' (body_classes s),
           themeIcon_classes := classList_add ''bx-moon'' (themeIcon_classes s) \<rparr>)"

text \<open>
  Two theme states are the same for an observer when both elements carry the same classes
  and the store holds the same entries.
\<close>

definition same_theme_state :: "theme_state \<Rightarrow> theme_state \<Rightarrow> bool" where
  "same_theme_state s s' =
     (set (body_classes s') = set (body_classes s) \<and>
      set (themeIcon_classes s') = set (themeIcon_classes s) \<and>
      localStorage s' = localStorage s)"

text \<open>
  A state is settled on a theme when the body carries exactly one of the two mode classes,
  the icon carries the matching one of the two icon classes and not the other, and the store
  records that theme.
\<close>

definition settled_dark :: "theme_state \<Rightarrow> bool" where
  "settled_dark s =
     (classList_contains ''dark-mode'' (body_classes s) \<and>
      \<not> classList_contains ''light-mode'' (body_classes s) \<and>
      classList_contains ''bx-moon'' (themeIcon_classes s) \<and>
      \<not> classList_contains ''bx-sun'' (themeIcon_classes s) \<and>
      localStorage s ''theme'' = Some ''dark'')"

definition settled_light :: "theme_state \<Rightarrow> bool" where
  "settled_light s =
     (classList_contains ''light-mode'' (body_classes s) \<and>
      \<not> classList_contains ''dark-mode'' (body_classes s) \<and>
      classList_contains ''bx-sun'' (themeIcon_classes s) \<and>
      \<not> classList_contains ''bx-moon'' (themeIcon_classes s) \<and>
      localStorage s ''theme'' = Some ''light'')"

text \<open>The page as a first-time visitor has it once \<^verbatim>\<open>loadTheme\<close> has run: nothing stored.\<close>

definition first_visit :: theme_state where
  "first_visit =
     \<lparr> body_classes = [''dark-mode''],
       themeIcon_classes = [''bx'', ''bx-moon''],
       localStorage = Map.empty \<rparr>"

definition returning_dark :: theme_state where
  "returning_dark =
     \<lparr> body_classes = [''dark-mode''],
       themeIcon_classes = [''bx'', ''bx-moon''],
       localStorage = [''theme'' \<mapsto> ''dark''] \<rparr>"

section \<open>Header compaction on scroll\<close>

text \<open>
  The first scroll listener reads \<^verbatim>\<open>window.pageYOffset || document.documentElement.scrollTop\<close>:
  the second operand is used when the first is zero. Scroll offsets are numbers, possibly
  fractional; only their order against the threshold matters.
\<close>

record scroll_event =
  pageYOffset :: real
  documentElement_scrollTop :: real

record header_state =
  header_classes :: classList
  lastScrollTop :: real

definition scrollTop_of :: "scroll_event \<Rightarrow> real" where
  "scrollTop_of e = (if pageYOffset e \<noteq> 0 then pageYOffset e else documentElement_scrollTop e)"

definition on_scroll_header :: "scroll_event \<Rightarrow> header_state \<Rightarrow> header_state" where
  "on_scroll_header e s =
     (let scrollTop = scrollTop_of e in
      (if scrollTop > 100
       then s\<lparr> header_classes := classList_add ''scrolled'' (header_classes s) \<rparr>
       else s\<lparr> header_classes := classList_remove ''scrolled'' (header_classes s) \<rparr>)
      \<lparr> lastScrollTop := scrollTop \<rparr>)"

section \<open>Active-section highlighter\<close>

text \<open>
  \<^verbatim>\<open>navLinks\<close> is the static list of the elements of class \<^verbatim>\<open>nav-link\<close>, in document
  order; of each link the callback touches the class list and the selector reads the
  \<^verbatim>\<open>data-section\<close> attribute (absent: \<open>None\<close>). An observer entry carries
  \<^verbatim>\<open>isIntersecting\<close> and the \<^verbatim>\<open>id\<close> attribute of its target section, for which
  \<^verbatim>\<open>getAttribute\<close> yields \<^verbatim>\<open>null\<close> (\<open>None\<close>) when the section has none.
\<close>

record nav_link =
  link_classes :: classList
  data_section :: "string option"

record observer_entry =
  isIntersecting :: bool
  target_id :: "string option"

text \<open>
  \<^verbatim>\<open>document.querySelector\<close> belongs to the browser. It answers with the first matching
  element, with \<^verbatim>\<open>null\<close>, or raises a syntax error on a selector it cannot parse. An
  answer \<open>Found i\<close> names the \<open>i\<close>-th nav link; an index beyond the list stands for an
  element that is not one of \<^verbatim>\<open>navLinks\<close>.
\<close>

datatype query_result = Found nat | NotFound | SyntaxError

type_synonym selector_engine = "string \<Rightarrow> nav_link list \<Rightarrow> query_result"

text \<open>
  The template literal \<^verbatim>\<open>.nav-link[data-section="${sectionId}"]\<close>; a \<^verbatim>\<open>null\<close>
  identifier is interpolated as the text \<^verbatim>\<open>null\<close>.
\<close>

definition selector_prefix :: string where
  "selector_prefix = ''.nav-link[data-section='' @ [CHR 0x22]"

definition selector_suffix :: string where
  "selector_suffix = [CHR 0x22] @ '']''"

definition template_text :: "string option \<Rightarrow> string" where
  "template_text v = (case v of None \<Rightarrow> ''null'' | Some s \<Rightarrow> s)"

definition activeLink_selector :: "string option \<Rightarrow> string" where
  "activeLink_selector sectionId = selector_prefix @ template_text sectionId @ selector_suffix"

definition remove_active :: "nav_link \<Rightarrow> nav_link" where
  "remove_active l = l\<lparr> link_classes := classList_remove ''active'' (link_classes l) \<rparr>"

definition add_active :: "nav_link \<Rightarrow> nav_link" where
  "add_active l = l\<lparr> link_classes := classList_add ''active'' (link_classes l) \<rparr>"

definition add_active_at :: "nat \<Rightarrow> nav_link list \<Rightarrow> nav_link list" where
  "add_active_at i links = (if i < length links then links[i := add_active (links ! i)] else links)"

text \<open>
  The callback either returns or is cut short by the selector's syntax error; the changes
  made to the links up to then stay in both cases.
\<close>

datatype callback_outcome = Returned "nav_link list" | Threw "nav_link list"

fun links_after :: "callback_outcome \<Rightarrow> nav_link list" where
  "links_after (Returned links) = links"
| "links_after (Threw links) = links"

fun sectionObserver_callback ::
  "selector_engine \<Rightarrow> observer_entry list \<Rightarrow> nav_link list \<Rightarrow> callback_outcome" where
  "sectionObserver_callback querySelector [] links = Returned links"
| "sectionObserver_callback querySelector (entry # entries) links =
     (if isIntersecting entry then
        (let sectionId = target_id entry;
             cleared = map remove_active links
         in case querySelector (activeLink_selector sectionId) cleared of
              SyntaxError \<Rightarrow> Threw cleared
            | NotFound \<Rightarrow> sectionObserver_callback querySelector entries cleared
            | Found i \<Rightarrow> sectionObserver_callback querySelector entries (add_active_at i cleared))
      else sectionObserver_callback querySelector entries links)"

definition is_active :: "nav_link \<Rightarrow> bool" where
  "is_active l = classList_contains ''active'' (link_classes l)"

definition at_most_one_active :: "nav_link list \<Rightarrow> bool" where
  "at_most_one_active links = (length (filter is_active links) \<le> 1)"

text \<open>
  What one intersecting entry asks for: no link active but the one the selector finds for
  the section's identifier.
\<close>

definition highlight_only :: "selector_engine \<Rightarrow> string option \<Rightarrow> nav_link list \<Rightarrow> nav_link list" where
  "highlight_only querySelector sectionId links =
     (let cleared = map remove_active links
      in case querySelector (activeLink_selector sectionId) cleared of
           Found i \<Rightarrow> add_active_at i cleared
         | NotFound \<Rightarrow> cleared
         | SyntaxError \<Rightarrow> cleared)"

text \<open>
  A selector engine for the selectors the template produces, when the interpolated text has
  no quotation mark, backslash or line break: the first link whose \<^verbatim>\<open>data-section\<close>
  equals the text.
\<close>

definition plain_text :: "string \<Rightarrow> bool" where
  "plain_text v = list_all (\<lambda>c. c \<notin> {CHR 0x22, CHR 0x5C, CHR 0x0A, CHR 0x0C, CHR 0x0D}) v"

fun first_with_section :: "string \<Rightarrow> nat \<Rightarrow> nav_link list \<Rightarrow> query_result" where
  "first_with_section v i [] = NotFound"
| "first_with_section v i (l # ls) =
     (if data_section l = Some v then Found i else first_with_section v (Suc i) ls)"

definition data_section_engine :: selector_engine where
  "data_section_engine sel links =
     (let p = length selector_prefix; n = length sel in
      if p + 2 \<le> n \<and> take p sel = selector_prefix \<and> drop (n - 2) sel = selector_suffix
      then (let v = take (n - 2 - p) (drop p sel) in
            if plain_text v then first_with_section v 0 links else SyntaxError)
      else SyntaxError)"

definition two_active_links :: "nav_link list" where
  "two_active_links =
     [\<lparr> link_classes = [''nav-link'', ''active''], data_section = Some ''home'' \<rparr>,
      \<lparr> link_classes = [''nav-link'', ''active''], data_section = Some ''about'' \<rparr>]"

definition leaving_home :: "observer_entry list" where
  "leaving_home = [\<lparr> isIntersecting = False, target_id = Some ''home'' \<rparr>]"

definition entering_about :: "observer_entry list" where
  "entering_about =
     [\<lparr> isIntersecting = False, target_id = Some ''home'' \<rparr>,
      \<lparr> isIntersecting = True, target_id = Some ''about'' \<rparr>]"

section \<open>Timers and the event loop\<close>

text \<open>
  \<^verbatim>\<open>setTimeout\<close> and \<^verbatim>\<open>clearTimeout\<close> belong to the browser. A page has a clock
  in milliseconds, a counter for timer handles and the pending timers in the order in
  which they will fire: by due time, and among equal due times by creation. The clock is
  ideal: a timer fires at its due time and a callback takes no time. The script's own
  state is the \<open>dom\<close> component, and \<open>'cb\<close> names the callbacks it hands to
  \<^verbatim>\<open>setTimeout\<close>.
\<close>

datatype 'cb timer = Timer (timer_id: nat) (due: nat) (on_fire: 'cb)

record ('cb, 'a) page =
  clock :: nat
  next_timer_id :: nat
  timers :: "'cb timer list"
  dom :: 'a

definition enqueue :: "'cb timer \<Rightarrow> 'cb timer list \<Rightarrow> 'cb timer list" where
  "enqueue tm q =
     takeWhile (\<lambda>x. due x \<le> due tm) q @ tm # dropWhile (\<lambda>x. due x \<le> due tm) q"

text \<open>
  The browser takes the delay of \<^verbatim>\<open>setTimeout\<close> as a signed 32-bit number of
  milliseconds: a whole number is reduced modulo \<open>2 ^ 32\<close>, and what then reads as negative
  (from \<open>2 ^ 31\<close> on) counts as no delay at all.
\<close>

definition timer_delay :: "nat \<Rightarrow> nat" where
  "timer_delay delay =
     (let r = delay mod 4294967296 in if r < 2147483648 then r else 0)"

definition setTimeout :: "'cb \<Rightarrow> nat \<Rightarrow> ('cb, 'a) page \<Rightarrow> nat \<times> ('cb, 'a) page" where
  "setTimeout cb delay w =
     (next_timer_id w,
      w\<lparr> next_timer_id := Suc (next_timer_id w),
         timers := enqueue (Timer (next_timer_id w) (clock w + timer_delay delay) cb) (timers w) \<rparr>)"

text \<open>The handle passed to \<^verbatim>\<open>clearTimeout\<close> may be \<^verbatim>\<open>undefined\<close> (\<open>None\<close>).\<close>

definition clearTimeout :: "nat option \<Rightarrow> ('cb, 'a) page \<Rightarrow> ('cb, 'a) page" where
  "clearTimeout h w =
     (case h of
        None \<Rightarrow> w
      | Some i \<Rightarrow> w\<lparr> timers := filter (\<lambda>x. timer_id x \<noteq> i) (timers w) \<rparr>)"

text \<open>
  The event loop up to time \<open>t\<close>, with no other event in between: it fires the pending
  timers that are due by \<open>t\<close>, one after the other, each at its due time, and then the
  clock stands at \<open>t\<close>. Callbacks may set timers, so the loop need not end; \<open>None\<close> is a
  loop that does not.
\<close>

partial_function (option) run_until ::
  "('cb \<Rightarrow> ('cb, 'a) page \<Rightarrow> ('cb, 'a) page) \<Rightarrow> nat \<Rightarrow> ('cb, 'a) page \<Rightarrow> ('cb, 'a) page option"
where
  "run_until fire t w =
     (case timers w of
        [] \<Rightarrow> Some (w\<lparr> clock := max (clock w) t \<rparr>)
      | tm # rest \<Rightarrow>
          if due tm \<le> t
          then run_until fire t
                 (fire (on_fire tm) (w\<lparr> timers := rest, clock := max (clock w) (due tm) \<rparr>))
          else Some (w\<lparr> clock := max (clock w) t \<rparr>))"

declare run_until.simps [code]

text \<open>
  A sequence of calls of one function \<open>f\<close> of the script, each given with the time that
  passes since the call before it (for the first: since the starting state) and with its
  arguments; between two calls the event loop runs.
\<close>

fun call_sequence ::
  "('cb \<Rightarrow> ('cb, 'a) page \<Rightarrow> ('cb, 'a) page) \<Rightarrow> ('arg \<Rightarrow> ('cb, 'a) page \<Rightarrow> ('cb, 'a) page) \<Rightarrow>
   (nat \<times> 'arg) list \<Rightarrow> ('cb, 'a) page \<Rightarrow> ('cb, 'a) page option" where
  "call_sequence fire f [] w = Some w"
| "call_sequence fire f ((gap, args) # calls) w =
     (case run_until fire (clock w + gap) w of
        None \<Rightarrow> None
      | Some w' \<Rightarrow> call_sequence fire f calls (f args w'))"

text \<open>A queue none of whose timers is due by \<open>t\<close>: its first timer is due later.\<close>

definition beyond :: "nat \<Rightarrow> 'cb timer list \<Rightarrow> bool" where
  "beyond t q = (case q of [] \<Rightarrow> True | x # _ \<Rightarrow> t < due x)"

section \<open>Contact form\<close>

text \<open>
  A value typed into a field is a JavaScript string: a sequence of 16-bit code units.
  \<^verbatim>\<open>trim\<close> strips white space and line terminators from both ends; the class escape
  \<^verbatim>\<open>\s\<close> of a regular expression stands for the same code units.
\<close>

type_synonym jsstring = "16 word list"

definition is_js_whitespace :: "16 word \<Rightarrow> bool" where
  "is_js_whitespace c =
     (c = 0x0009 \<or> c = 0x000A \<or> c = 0x000B \<or> c = 0x000C \<or> c = 0x000D \<or> c = 0x0020 \<or>
      c = 0x00A0 \<or> c = 0x1680 \<or> (0x2000 \<le> c \<and> c \<le> 0x200A) \<or> c = 0x2028 \<or>
      c = 0x2029 \<or> c = 0x202F \<or> c = 0x205F \<or> c = 0x3000 \<or> c = 0xFEFF)"

definition trim :: "jsstring \<Rightarrow> jsstring" where
  "trim s = rev (dropWhile is_js_whitespace (rev (dropWhile is_js_whitespace s)))"

text \<open>
  Regular expressions of the shape the script uses, anchored at both ends of the input
  (\<^verbatim>\<open>^\<close> ... \<^verbatim>\<open>$\<close>, no flags): a sequence of atoms, each taken once or one or more
  times (\<^verbatim>\<open>+\<close>). An atom is a single code unit or a negated class \<^verbatim>\<open>[^...]\<close> whose
  members are \<^verbatim>\<open>\s\<close> or single code units. The matcher tries the longer repetition
  first and backtracks, as the engine does.
\<close>

datatype class_member = WhiteSpace | Unit "16 word"

datatype regex_atom = Exactly "16 word" | NoneOf "class_member list"

datatype quantifier = Once | OneOrMore

type_synonym regex = "(regex_atom \<times> quantifier) list"

fun member_matches :: "class_member \<Rightarrow> 16 word \<Rightarrow> bool" where
  "member_matches WhiteSpace c = is_js_whitespace c"
| "member_matches (Unit u) c = (c = u)"

fun atom_matches :: "regex_atom \<Rightarrow> 16 word \<Rightarrow> bool" where
  "atom_matches (Exactly u) c = (c = u)"
| "atom_matches (NoneOf members) c = (\<not> list_ex (\<lambda>m. member_matches m c) members)"

fun regex_test :: "regex \<Rightarrow> jsstring \<Rightarrow> bool" where
  "regex_test [] s = (s = [])"
| "regex_test ((a, q) # r) [] = False"
| "regex_test ((a, Once) # r) (c # s) = (atom_matches a c \<and> regex_test r s)"
| "regex_test ((a, OneOrMore) # r) (c # s) =
     (atom_matches a c \<and> (regex_test ((a, OneOrMore) # r) s \<or> regex_test r s))"

text \<open>The pattern \<^verbatim>\<open>/^[^\s@]+@[^\s@]+\.[^\s@]+$/\<close>.\<close>

definition emailRegex :: regex where
  "emailRegex =
     [(NoneOf [WhiteSpace, Unit 0x40], OneOrMore),
      (Exactly 0x40, Once),
      (NoneOf [WhiteSpace, Unit 0x40], OneOrMore),
      (Exactly 0x2E, Once),
      (NoneOf [WhiteSpace, Unit 0x40], OneOrMore)]"

text \<open>
  The form: the values of its four fields, the submit button's \<^verbatim>\<open>disabled\<close> flag and
  label, and the text and \<^verbatim>\<open>className\<close> of the message area. The message area shows
  when its class name carries \<^verbatim>\<open>error\<close> or \<^verbatim>\<open>success\<close> and is hidden when the
  class name is reset to \<^verbatim>\<open>form-message\<close>. All elements are taken to exist.
  The handler's \<^verbatim>\<open>e.preventDefault()\<close> changes nothing of this state.
\<close>

record contact_form =
  fullName_value :: jsstring
  email_value :: jsstring
  subject_value :: jsstring
  message_value :: jsstring
  submitBtn_disabled :: bool
  submitBtn_textContent :: string
  formMessage_textContent :: string
  formMessage_className :: string

datatype form_callback = HideFormMessage | FinishSubmission

type_synonym form_page = "(form_callback, contact_form) page"

definition showFormMessage :: "string \<Rightarrow> string \<Rightarrow> form_page \<Rightarrow> form_page" where
  "showFormMessage message type w =
     snd (setTimeout HideFormMessage 5000
            (w\<lparr> dom := (dom w)\<lparr> formMessage_textContent := message,
                               formMessage_className := ''form-message '' @ type \<rparr> \<rparr>))"

definition handleFormSubmit :: "form_page \<Rightarrow> form_page" where
  "handleFormSubmit w =
     (let fullName = trim (fullName_value (dom w));
          email = trim (email_value (dom w));
          subject = trim (subject_value (dom w));
          message = trim (message_value (dom w))
      in if fullName = [] \<or> email = [] \<or> subject = [] \<or> message = [] then
           showFormMessage ''Please fill in all fields.'' ''error'' w
         else if \<not> regex_test emailRegex email then
           showFormMessage ''Please enter a valid email address.'' ''error'' w
         else
           snd (setTimeout FinishSubmission 2000
                  (w\<lparr> dom := (dom w)\<lparr> submitBtn_disabled := True,
                                     submitBtn_textContent := ''Sending...'' \<rparr> \<rparr>)))"

fun fire_form :: "form_callback \<Rightarrow> form_page \<Rightarrow> form_page" where
  "fire_form HideFormMessage w =
     w\<lparr> dom := (dom w)\<lparr> formMessage_className := ''form-message'' \<rparr> \<rparr>"
| "fire_form FinishSubmission w =
     (let w1 = w\<lparr> dom := (dom w)\<lparr> fullName_value := [], email_value := [],
                                    subject_value := [], message_value := [] \<rparr> \<rparr>;
          w2 = showFormMessage ''Message sent successfully! I'll get back to you soon.''
                 ''success'' w1
      in w2\<lparr> dom := (dom w2)\<lparr> submitBtn_disabled := False,
                               submitBtn_textContent := ''Send Message'' \<rparr> \<rparr>)"

text \<open>
  The address shape in the words of the specification: one or more characters that are
  neither white space nor \<^verbatim>\<open>@\<close>, then \<^verbatim>\<open>@\<close>, then one or more such characters, then
  a dot, then one or more such characters.
\<close>

definition plain_unit :: "16 word \<Rightarrow> bool" where
  "plain_unit c = (\<not> is_js_whitespace c \<and> c \<noteq> 0x40)"

definition local_domain_tld_shape :: "jsstring \<Rightarrow> bool" where
  "local_domain_tld_shape e =
     (\<exists>local domain tld.
        e = local @ [0x40] @ domain @ [0x2E] @ tld \<and>
        local \<noteq> [] \<and> domain \<noteq> [] \<and> tld \<noteq> [] \<and>
        list_all plain_unit local \<and> list_all plain_unit domain \<and> list_all plain_unit tld)"

definition submission_pending :: "form_page \<Rightarrow> form_callback timer list" where
  "submission_pending w = filter (\<lambda>x. on_fire x = FinishSubmission) (timers w)"

definition form_reset_and_confirmed :: "contact_form \<Rightarrow> bool" where
  "form_reset_and_confirmed f =
     (fullName_value f = [] \<and> email_value f = [] \<and> subject_value f = [] \<and>
      message_value f = [] \<and>
      formMessage_textContent f = ''Message sent successfully! I'll get back to you soon.'' \<and>
      formMessage_className f = ''form-message success'' \<and>
      \<not> submitBtn_disabled f \<and> submitBtn_textContent f = ''Send Message'')"

text \<open>A freshly loaded page with an untouched form, and the same form filled in.\<close>

definition blank_page :: form_page where
  "blank_page =
     \<lparr> clock = 0, next_timer_id = 1, timers = [],
       dom = \<lparr> fullName_value = [], email_value = [], subject_value = [], message_value = [],
               submitBtn_disabled = False, submitBtn_textContent = ''Send Message'',
               formMessage_textContent = [], formMessage_className = ''form-message'' \<rparr> \<rparr>"

definition filled_page :: "jsstring \<Rightarrow> form_page" where
  "filled_page address =
     blank_page\<lparr> dom := (dom blank_page)
       \<lparr> fullName_value := [0x4A, 0x6F], email_value := address,
         subject_value := [0x48, 0x69], message_value := [0x20, 0x79, 0x6F] \<rparr> \<rparr>"

text \<open>
  The blank form after a first submission at time 0, as it stands at time 4000, and after a
  second submission at time 4000, as it stands at time 5000.
\<close>

definition resubmit_at_4000 :: form_page where
  "resubmit_at_4000 =
     \<lparr> clock = 4000, next_timer_id = 2, timers = [Timer 1 5000 HideFormMessage],
       dom = \<lparr> fullName_value = [], email_value = [], subject_value = [], message_value = [],
               submitBtn_disabled = False, submitBtn_textContent = ''Send Message'',
               formMessage_textContent = ''Please fill in all fields.'',
               formMessage_className = ''form-message error'' \<rparr> \<rparr>"

definition hidden_at_5000 :: form_page where
  "hidden_at_5000 =
     \<lparr> clock = 5000, next_timer_id = 3, timers = [Timer 2 9000 HideFormMessage],
       dom = \<lparr> fullName_value = [], email_value = [], subject_value = [], message_value = [],
               submitBtn_disabled = False, submitBtn_textContent = ''Send Message'',
               formMessage_textContent = ''Please fill in all fields.'',
               formMessage_className = ''form-message'' \<rparr> \<rparr>"

section \<open>Debounce and throttle\<close>

text \<open>
  Both wrappers take a function \<^verbatim>\<open>func\<close> about which the script knows nothing. What
  \<^verbatim>\<open>func\<close> does is a parameter: given its arguments and the page as it stands when
  \<^verbatim>\<open>func\<close> is entered, it yields the page as \<^verbatim>\<open>func\<close> leaves it and whether it
  returns or throws. A \<^verbatim>\<open>func\<close> that calls the wrapper itself or sets timers shows in
  the page it leaves. Each entry into \<^verbatim>\<open>func\<close> is put on record with its time and
  arguments before \<^verbatim>\<open>func\<close> runs.
\<close>

datatype completion = Return | Throw

text \<open>
  \<^verbatim>\<open>debounce(func, wait)\<close> returns a closure over the variable \<^verbatim>\<open>timeout\<close>, at first
  \<^verbatim>\<open>undefined\<close>. The callback \<^verbatim>\<open>later\<close> carries the arguments of the call that set
  it; an exception of \<^verbatim>\<open>func\<close> leaves \<^verbatim>\<open>later\<close> and ends in the event loop.
\<close>

record 'arg debounced =
  timeout :: "nat option"
  invoked :: "(nat \<times> 'arg) list"

datatype 'arg debounce_callback = Later 'arg

type_synonym 'arg debounce_page = "('arg debounce_callback, 'arg debounced) page"

type_synonym 'arg debounce_func = "'arg \<Rightarrow> 'arg debounce_page \<Rightarrow> completion \<times> 'arg debounce_page"

definition debounce :: "nat \<Rightarrow> nat \<Rightarrow> 'arg debounce_page" where
  "debounce now handle =
     \<lparr> clock = now, next_timer_id = handle, timers = [],
       dom = \<lparr> timeout = None, invoked = [] \<rparr> \<rparr>"

definition executedFunction :: "nat \<Rightarrow> 'arg \<Rightarrow> 'arg debounce_page \<Rightarrow> 'arg debounce_page" where
  "executedFunction wait args w =
     (let w1 = clearTimeout (timeout (dom w)) w;
          (h, w2) = setTimeout (Later args) wait w1
      in w2\<lparr> dom := (dom w2)\<lparr> timeout := Some h \<rparr> \<rparr>)"

fun fire_debounce ::
  "'arg debounce_func \<Rightarrow> 'arg debounce_callback \<Rightarrow> 'arg debounce_page \<Rightarrow> 'arg debounce_page" where
  "fire_debounce func (Later args) w =
     (let w1 = clearTimeout (timeout (dom w)) w;
          w2 = w1\<lparr> dom := (dom w1)\<lparr> invoked := invoked (dom w1) @ [(clock w1, args)] \<rparr> \<rparr>
      in snd (func args w2))"

text \<open>
  The invocations of \<^verbatim>\<open>func\<close> on record at time \<open>T\<close> (or at the last call, if that is
  later), when a fresh debounced function receives the given calls.
\<close>

definition debounce_invocations ::
  "'arg debounce_func \<Rightarrow> nat \<Rightarrow> nat \<Rightarrow> nat \<Rightarrow> (nat \<times> 'arg) list \<Rightarrow> nat \<Rightarrow>
   (nat \<times> 'arg) list option" where
  "debounce_invocations func wait now handle calls T =
     (case call_sequence (fire_debounce func) (executedFunction wait) calls (debounce now handle) of
        None \<Rightarrow> None
      | Some w \<Rightarrow> map_option (\<lambda>w'. invoked (dom w')) (run_until (fire_debounce func) T w))"

text \<open>
  A \<^verbatim>\<open>func\<close> that does nothing to the page and returns, and one that does nothing to
  the page and throws.
\<close>

definition quiet :: "'arg \<Rightarrow> 'pg \<Rightarrow> completion \<times> 'pg" where
  "quiet args w = (Return, w)"

definition failing :: "'arg \<Rightarrow> 'pg \<Rightarrow> completion \<times> 'pg" where
  "failing args w = (Throw, w)"

text \<open>
  \<^verbatim>\<open>throttle(func, limit)\<close> returns a closure over the variable \<^verbatim>\<open>inThrottle\<close>, at
  first \<^verbatim>\<open>undefined\<close> (\<open>None\<close>), which is falsy. The closure calls \<^verbatim>\<open>func\<close> first and
  sets the flag and the timer afterwards: when \<^verbatim>\<open>func\<close> throws, the exception leaves
  the closure before either is done.
\<close>

record 'arg throttled =
  inThrottle :: "bool option"
  calls_made :: "(nat \<times> 'arg) list"

datatype throttle_callback = Release

type_synonym 'arg throttle_page = "(throttle_callback, 'arg throttled) page"

type_synonym 'arg throttle_func = "'arg \<Rightarrow> 'arg throttle_page \<Rightarrow> completion \<times> 'arg throttle_page"

definition throttle :: "nat \<Rightarrow> nat \<Rightarrow> 'arg throttle_page" where
  "throttle now handle =
     \<lparr> clock = now, next_timer_id = handle, timers = [],
       dom = \<lparr> inThrottle = None, calls_made = [] \<rparr> \<rparr>"

definition throttled_call ::
  "'arg throttle_func \<Rightarrow> nat \<Rightarrow> 'arg \<Rightarrow> 'arg throttle_page \<Rightarrow> completion \<times> 'arg throttle_page" where
  "throttled_call func limit args w =
     (if inThrottle (dom w) \<noteq> Some True then
        (case func args
                (w\<lparr> dom := (dom w)\<lparr> calls_made := calls_made (dom w) @ [(clock w, args)] \<rparr> \<rparr>) of
           (Throw, w1) \<Rightarrow> (Throw, w1)
         | (Return, w1) \<Rightarrow>
             (Return,
              snd (setTimeout Release limit (w1\<lparr> dom := (dom w1)\<lparr> inThrottle := Some True \<rparr> \<rparr>))))
      else (Return, w))"

text \<open>
  A call of the throttled function as an event of its own: an exception it lets through
  ends in the event loop, and the page stays as the call left it.
\<close>

definition throttled_event :: "'arg throttle_func \<Rightarrow> nat \<Rightarrow> 'arg \<Rightarrow> 'arg throttle_page \<Rightarrow> 'arg throttle_page" where
  "throttled_event func limit args w = snd (throttled_call func limit args w)"

fun fire_throttle :: "throttle_callback \<Rightarrow> 'arg throttle_page \<Rightarrow> 'arg throttle_page" where
  "fire_throttle Release w = w\<lparr> dom := (dom w)\<lparr> inThrottle := Some False \<rparr> \<rparr>"

definition throttle_invocations ::
  "'arg throttle_func \<Rightarrow> nat \<Rightarrow> nat \<Rightarrow> nat \<Rightarrow> (nat \<times> 'arg) list \<Rightarrow> nat \<Rightarrow>
   (nat \<times> 'arg) list option" where
  "throttle_invocations func limit now handle calls T =
     (case call_sequence fire_throttle (throttled_event func limit) calls (throttle now handle) of
        None \<Rightarrow> None
      | Some w \<Rightarrow> map_option (\<lambda>w'. calls_made (dom w')) (run_until fire_throttle T w))"

section \<open>Facts about class lists\<close>

lemma set_classList_add: "set (classList_add c cl) = insert c (set cl)"
  by (auto simp: classList_add_def)

lemma set_classList_remove: "set (classList_remove c cl) = set cl - {c}"
  by (auto simp: classList_remove_def)

lemma contains_add: "classList_contains d (classList_add c cl) = (d = c \<or> classList_contains d cl)"
  by (auto simp: classList_contains_def set_classList_add)

lemma contains_remove:
  "classList_contains d (classList_remove c cl) = (d \<noteq> c \<and> classList_contains d cl)"
  by (auto simp: classList_contains_def set_classList_remove)

section \<open>Theme: results\<close>

lemma toggleTheme_dark_to_light: "settled_dark s \<Longrightarrow> settled_light (toggleTheme s)"
  by (simp add: settled_dark_def settled_light_def toggleTheme_def Let_def contains_add contains_remove)

lemma toggleTheme_light_to_dark: "settled_light s \<Longrightarrow> settled_dark (toggleTheme s)"
  by (simp add: settled_dark_def settled_light_def toggleTheme_def Let_def contains_add contains_remove)

lemma toggleTheme_twice_from_dark:
  assumes "classList_contains ''dark-mode'' (body_classes s)"
  shows "set (body_classes (toggleTheme (toggleTheme s))) =
           insert ''dark-mode'' (set (body_classes s) - {''light-mode''})"
    and "set (themeIcon_classes (toggleTheme (toggleTheme s))) =
           insert ''bx-moon'' (set (themeIcon_classes s) - {''bx-sun''})"
    and "localStorage (toggleTheme (toggleTheme s)) = (localStorage s)(''theme'' \<mapsto> ''dark'')"
proof -
  let ?s1 = "toggleTheme s"
  have b1: "body_classes ?s1 = classList_add ''light-mode'' (classList_remove ''dark-mode'' (body_classes s))"
    and i1: "themeIcon_classes ?s1 = classList_add ''bx-sun'' (classList_remove ''bx-moon'' (themeIcon_classes s))"
    and l1: "localStorage ?s1 = (localStorage s)(''theme'' \<mapsto> ''light'')"
    using assms by (simp_all add: toggleTheme_def)
  have nd: "\<not> classList_contains ''dark-mode'' (body_classes ?s1)"
    by (simp add: b1 contains_add contains_remove)
  have b2: "body_classes (toggleTheme ?s1) = classList_add ''dark-mode'' (classList_remove ''light-mode'' (body_classes ?s1))"
    and i2: "themeIcon_classes (toggleTheme ?s1) = classList_add ''bx-moon'' (classList_remove ''bx-sun'' (themeIcon_classes ?s1))"
    and l2: "localStorage (toggleTheme ?s1) = (localStorage ?s1)(''theme'' \<mapsto> ''dark'')"
    using nd by (simp_all add: toggleTheme_def [of ?s1])
  from assms have d: "''dark-mode'' \<in> set (body_classes s)"
    by (simp add: classList_contains_def)
  show "set (body_classes (toggleTheme ?s1)) = insert ''dark-mode'' (set (body_classes s) - {''light-mode''})"
    unfolding b2 b1 set_classList_add set_classList_remove using d by auto
  show "set (themeIcon_classes (toggleTheme ?s1)) = insert ''bx-moon'' (set (themeIcon_classes s) - {''bx-sun''})"
    unfolding i2 i1 set_classList_add set_classList_remove by auto
  show "localStorage (toggleTheme ?s1) = (localStorage s)(''theme'' \<mapsto> ''dark'')"
    unfolding l2 l1 by simp
qed

lemma toggleTheme_twice_from_other:
  assumes "\<not> classList_contains ''dark-mode'' (body_classes s)"
  shows "set (body_classes (toggleTheme (toggleTheme s))) =
           insert ''light-mode'' (set (body_classes s))"
    and "set (themeIcon_classes (toggleTheme (toggleTheme s))) =
           insert ''bx-sun'' (set (themeIcon_classes s) - {''bx-moon''})"
    and "localStorage (toggleTheme (toggleTheme s)) = (localStorage s)(''theme'' \<mapsto> ''light'')"
proof -
  let ?s1 = "toggleTheme s"
  have b1: "body_classes ?s1 = classList_add ''dark-mode'' (classList_remove ''light-mode'' (body_classes s))"
    and i1: "themeIcon_classes ?s1 = classList_add ''bx-moon'' (classList_remove ''bx-sun'' (themeIcon_classes s))"
    and l1: "localStorage ?s1 = (localStorage s)(''theme'' \<mapsto> ''dark'')"
    using assms by (simp_all add: toggleTheme_def)
  have dk: "classList_contains ''dark-mode'' (body_classes ?s1)"
    by (simp add: b1 contains_add)
  have b2: "body_classes (toggleTheme ?s1) = classList_add ''light-mode'' (classList_remove ''dark-mode'' (body_classes ?s1))"
    and i2: "themeIcon_classes (toggleTheme ?s1) = classList_add ''bx-sun'' (classList_remove ''bx-moon'' (themeIcon_classes ?s1))"
    and l2: "localStorage (toggleTheme ?s1) = (localStorage ?s1)(''theme'' \<mapsto> ''light'')"
    using dk by (simp_all add: toggleTheme_def [of ?s1])
  from assms have d: "''dark-mode'' \<notin> set (body_classes s)"
    by (simp add: classList_contains_def)
  show "set (body_classes (toggleTheme ?s1)) = insert ''light-mode'' (set (body_classes s))"
    unfolding b2 b1 set_classList_add set_classList_remove using d by auto
  show "set (themeIcon_classes (toggleTheme ?s1)) = insert ''bx-sun'' (set (themeIcon_classes s) - {''bx-moon''})"
    unfolding i2 i1 set_classList_add set_classList_remove by auto
  show "localStorage (toggleTheme ?s1) = (localStorage s)(''theme'' \<mapsto> ''light'')"
    unfolding l2 l1 by simp
qed

lemma map_upd_same_iff: "(m(k \<mapsto> v) = m) = (m k = Some v)"
  by (metis fun_upd_same map_upd_triv)

lemma insert_Diff_same_iff: "a \<noteq> b \<Longrightarrow> (insert a (S - {b}) = S) = (a \<in> S \<and> b \<notin> S)"
  by auto

lemma insert_same_iff: "(insert a S = S) = (a \<in> S)"
  by blast

lemma mode_classes_differ: "''dark-mode'' \<noteq> ''light-mode''" "''light-mode'' \<noteq> ''dark-mode''"
  "''bx-moon'' \<noteq> ''bx-sun''" "''bx-sun'' \<noteq> ''bx-moon''"
  by simp_all

lemma toggleTheme_twice_only_if:
  assumes "same_theme_state s (toggleTheme (toggleTheme s))"
  shows "settled_dark s \<or> settled_light s"
proof (cases "classList_contains ''dark-mode'' (body_classes s)")
  case True
  from assms have "settled_dark s"
    unfolding same_theme_state_def toggleTheme_twice_from_dark [OF True] map_upd_same_iff
      settled_dark_def classList_contains_def
      insert_Diff_same_iff [OF mode_classes_differ(1)]
      insert_Diff_same_iff [OF mode_classes_differ(3)]
    by simp
  then show ?thesis ..
next
  case False
  from assms have "settled_light s"
    unfolding same_theme_state_def toggleTheme_twice_from_other [OF False] map_upd_same_iff
      settled_light_def classList_contains_def insert_same_iff
      insert_Diff_same_iff [OF mode_classes_differ(4)]
    using False [unfolded classList_contains_def] by simp
  then show ?thesis ..
qed

text \<open>
  A returning visitor's page is settled once \<^verbatim>\<open>loadTheme\<close> has run, provided the
  markup itself carries neither \<^verbatim>\<open>light-mode\<close> nor \<^verbatim>\<open>bx-sun\<close>.
\<close>

lemma loadTheme_settles:
  assumes "localStorage s ''theme'' = Some ''light'' \<or>
           localStorage s ''theme'' = Some ''dark'' \<and>
           \<not> classList_contains ''light-mode'' (body_classes s) \<and>
           \<not> classList_contains ''bx-sun'' (themeIcon_classes s)"
  shows "settled_light (loadTheme s) \<or> settled_dark (loadTheme s)"
  using assms
  by (auto simp: loadTheme_def settled_light_def settled_dark_def contains_add contains_remove)

text \<open>
  C1, as stated: from every starting state, toggling the theme twice gives back the starting
  store and classes. It fails for the first-time visitor, whose page \<^verbatim>\<open>loadTheme\<close> has
  set up from an empty store: the store had no entry under \<^verbatim>\<open>theme\<close> and holds
  \<^verbatim>\<open>dark\<close> afterwards.
\<close>

theorem toggleTheme_twice_first_visit:
  "loadTheme \<lparr> body_classes = [], themeIcon_classes = [''bx''], localStorage = Map.empty \<rparr> =
     first_visit \<and>
   localStorage first_visit ''theme'' = None \<and>
   localStorage (toggleTheme (toggleTheme first_visit)) ''theme'' = Some ''dark'' \<and>
   \<not> same_theme_state first_visit (toggleTheme (toggleTheme first_visit))"
proof -
  have l: "loadTheme \<lparr> body_classes = [], themeIcon_classes = [''bx''],
      localStorage = Map.empty \<rparr> = first_visit"
    by (simp add: loadTheme_def first_visit_def classList_add_def)
  have a: "localStorage first_visit ''theme'' = None"
    by (simp add: first_visit_def)
  have b: "localStorage (toggleTheme (toggleTheme first_visit)) ''theme'' = Some ''dark''"
    by (simp add: first_visit_def toggleTheme_def Let_def classList_contains_def
        set_classList_add set_classList_remove)
  from a b have "localStorage (toggleTheme (toggleTheme first_visit)) \<noteq> localStorage first_visit"
    by (metis option.distinct(1))
  with l a b show ?thesis
    by (simp add: same_theme_state_def)
qed

text \<open>
  C1, amended: from every starting state that is settled on a theme (the body carries
  exactly one of \<^verbatim>\<open>dark-mode\<close>/\<^verbatim>\<open>light-mode\<close>, the icon carries the matching one of
  \<^verbatim>\<open>bx-moon\<close>/\<^verbatim>\<open>bx-sun\<close> and not the other, and the store records that theme under
  \<^verbatim>\<open>theme\<close>), toggling twice gives back the same classes on body and icon and the same
  store.
\<close>

theorem toggleTheme_twice_settled:
  assumes "settled_dark s \<or> settled_light s"
  shows "same_theme_state s (toggleTheme (toggleTheme s))"
  using assms
proof
  assume d: "settled_dark s"
  then have c: "classList_contains ''dark-mode'' (body_classes s)"
    by (simp add: settled_dark_def)
  from d show ?thesis
    unfolding same_theme_state_def toggleTheme_twice_from_dark [OF c] map_upd_same_iff
      settled_dark_def classList_contains_def
      insert_Diff_same_iff [OF mode_classes_differ(1)]
      insert_Diff_same_iff [OF mode_classes_differ(3)]
    by simp
next
  assume l: "settled_light s"
  then have c: "\<not> classList_contains ''dark-mode'' (body_classes s)"
    by (simp add: settled_light_def)
  from l show ?thesis
    unfolding same_theme_state_def toggleTheme_twice_from_other [OF c] map_upd_same_iff
      settled_light_def classList_contains_def insert_same_iff
      insert_Diff_same_iff [OF mode_classes_differ(4)]
    by simp
qed

theorem toggleTheme_twice_settled_witness:
  "(settled_dark returning_dark \<or> settled_light returning_dark) \<and>
   same_theme_state returning_dark (toggleTheme (toggleTheme returning_dark))"
proof -
  have h: "settled_dark returning_dark"
    by (simp add: settled_dark_def returning_dark_def classList_contains_def)
  then have "settled_dark returning_dark \<or> settled_light returning_dark" ..
  then show ?thesis
    using toggleTheme_twice_settled [of returning_dark] by simp
qed

text \<open>
  C8: when the store has no entry under \<^verbatim>\<open>theme\<close>, \<^verbatim>\<open>loadTheme\<close> adds
  \<^verbatim>\<open>dark-mode\<close> to the body and \<^verbatim>\<open>bx-moon\<close> to the icon and changes no other class;
  when the entry is \<^verbatim>\<open>light\<close>, it puts \<^verbatim>\<open>light-mode\<close> in place of \<^verbatim>\<open>dark-mode\<close>
  and \<^verbatim>\<open>bx-sun\<close> in place of \<^verbatim>\<open>bx-moon\<close>. The store is only read.
\<close>

theorem loadTheme_restores:
  "(localStorage s ''theme'' = None \<longrightarrow>
      set (body_classes (loadTheme s)) = insert ''dark-mode'' (set (body_classes s)) \<and>
      set (themeIcon_classes (loadTheme s)) = insert ''bx-moon'' (set (themeIcon_classes s))) \<and>
   (localStorage s ''theme'' = Some ''light'' \<longrightarrow>
      set (body_classes (loadTheme s)) =
        insert ''light-mode'' (set (body_classes s) - {''dark-mode''}) \<and>
      set (themeIcon_classes (loadTheme s)) =
        insert ''bx-sun'' (set (themeIcon_classes s) - {''bx-moon''})) \<and>
   localStorage (loadTheme s) = localStorage s"
  by (simp add: loadTheme_def Let_def set_classList_add set_classList_remove)

theorem loadTheme_restores_witness:
  "localStorage \<lparr> body_classes = [], themeIcon_classes = [''bx''],
                  localStorage = Map.empty \<rparr> ''theme'' = None \<and>
   set (body_classes (loadTheme \<lparr> body_classes = [], themeIcon_classes = [''bx''],
                  localStorage = Map.empty \<rparr>)) = {''dark-mode''} \<and>
   set (themeIcon_classes (loadTheme \<lparr> body_classes = [], themeIcon_classes = [''bx''],
                  localStorage = Map.empty \<rparr>)) = {''bx-moon'', ''bx''} \<and>
   localStorage \<lparr> body_classes = [''dark-mode''], themeIcon_classes = [''bx'', ''bx-moon''],
                  localStorage = [''theme'' \<mapsto> ''light''] \<rparr> ''theme'' = Some ''light'' \<and>
   set (body_classes (loadTheme \<lparr> body_classes = [''dark-mode''],
                  themeIcon_classes = [''bx'', ''bx-moon''],
                  localStorage = [''theme'' \<mapsto> ''light''] \<rparr>)) = {''light-mode''} \<and>
   set (themeIcon_classes (loadTheme \<lparr> body_classes = [''dark-mode''],
                  themeIcon_classes = [''bx'', ''bx-moon''],
                  localStorage = [''theme'' \<mapsto> ''light''] \<rparr>)) = {''bx-sun'', ''bx''}"
  using loadTheme_restores [of "\<lparr> body_classes = [], themeIcon_classes = [''bx''],
                  localStorage = Map.empty \<rparr>"]
    loadTheme_restores [of "\<lparr> body_classes = [''dark-mode''],
                  themeIcon_classes = [''bx'', ''bx-moon''],
                  localStorage = [''theme'' \<mapsto> ''light''] \<rparr>"]
  by auto

section \<open>Header compaction: results\<close>

text \<open>
  C7: after the scroll handler has run, the header carries \<^verbatim>\<open>scrolled\<close> exactly when the
  scroll distance exceeds 100, the distance being \<^verbatim>\<open>window.pageYOffset\<close> or, where that
  reads zero, \<^verbatim>\<open>document.documentElement.scrollTop\<close>. This is so whatever the header's
  classes and the remembered previous scroll position were before, and no other class of
  the header changes.
\<close>

theorem header_scrolled_stateless:
  "classList_contains ''scrolled'' (header_classes (on_scroll_header e s)) =
     (100 < pageYOffset e \<or> pageYOffset e = 0 \<and> 100 < documentElement_scrollTop e) \<and>
   set (header_classes (on_scroll_header e s)) - {''scrolled''} = set (header_classes s) - {''scrolled''} \<and>
   classList_contains ''scrolled'' (header_classes (on_scroll_header e s')) =
     classList_contains ''scrolled'' (header_classes (on_scroll_header e s))"
  by (auto simp: on_scroll_header_def scrollTop_of_def Let_def contains_add contains_remove
      classList_contains_def set_classList_add set_classList_remove)

theorem header_scrolled_stateless_witness:
  "classList_contains ''scrolled'' (header_classes (on_scroll_header
      \<lparr> pageYOffset = 150, documentElement_scrollTop = 150 \<rparr>
      \<lparr> header_classes = [''header''], lastScrollTop = 0 \<rparr>)) \<and>
   \<not> classList_contains ''scrolled'' (header_classes (on_scroll_header
      \<lparr> pageYOffset = 100, documentElement_scrollTop = 100 \<rparr>
      \<lparr> header_classes = [''header'', ''scrolled''], lastScrollTop = 150 \<rparr>)) \<and>
   \<not> classList_contains ''scrolled'' (header_classes (on_scroll_header
      \<lparr> pageYOffset = 0, documentElement_scrollTop = 0 \<rparr>
      \<lparr> header_classes = [''header'', ''scrolled''], lastScrollTop = 100 \<rparr>)) \<and>
   classList_contains ''scrolled'' (header_classes (on_scroll_header
      \<lparr> pageYOffset = 0, documentElement_scrollTop = 100.5 \<rparr>
      \<lparr> header_classes = [''header''], lastScrollTop = 0 \<rparr>))"
proof -
  note a = header_scrolled_stateless
    [of "\<lparr> pageYOffset = 150, documentElement_scrollTop = 150 \<rparr>"
        "\<lparr> header_classes = [''header''], lastScrollTop = 0 \<rparr>", THEN conjunct1]
  note b = header_scrolled_stateless
    [of "\<lparr> pageYOffset = 100, documentElement_scrollTop = 100 \<rparr>"
        "\<lparr> header_classes = [''header'', ''scrolled''], lastScrollTop = 150 \<rparr>", THEN conjunct1]
  note c = header_scrolled_stateless
    [of "\<lparr> pageYOffset = 0, documentElement_scrollTop = 0 \<rparr>"
        "\<lparr> header_classes = [''header'', ''scrolled''], lastScrollTop = 100 \<rparr>", THEN conjunct1]
  note d = header_scrolled_stateless
    [of "\<lparr> pageYOffset = 0, documentElement_scrollTop = 100.5 \<rparr>"
        "\<lparr> header_classes = [''header''], lastScrollTop = 0 \<rparr>", THEN conjunct1]
  show ?thesis
    unfolding a b c d by simp
qed

section \<open>Active-section highlighter: results\<close>

lemma not_active_remove_active: "\<not> is_active (remove_active l)"
  by (simp add: is_active_def remove_active_def contains_remove)

lemma is_active_add_active: "is_active (add_active l)"
  by (simp add: is_active_def add_active_def contains_add)

lemma no_active_cleared: "filter is_active (map remove_active links) = []"
  by (simp add: filter_empty_conv not_active_remove_active)

lemma add_active_at_split:
  assumes "i < length links"
  shows "add_active_at i links = take i links @ add_active (links ! i) # drop (Suc i) links"
  using assms by (simp add: add_active_at_def upd_conv_take_nth_drop)

lemma one_active_after_add:
  assumes "filter is_active links = []"
  shows "length (filter is_active (add_active_at i links)) \<le> 1"
proof (cases "i < length links")
  case True
  from assms have none: "\<forall>l \<in> set links. \<not> is_active l"
    by (simp add: filter_empty_conv)
  have "filter is_active (take i links) = []"
    using none by (auto simp: filter_empty_conv dest: in_set_takeD)
  moreover have "filter is_active (drop (Suc i) links) = []"
    using none by (auto simp: filter_empty_conv dest: in_set_dropD)
  ultimately show ?thesis
    by (simp add: add_active_at_split [OF True])
next
  case False
  then show ?thesis
    using assms by (simp add: add_active_at_def)
qed

lemma at_most_one_cleared: "at_most_one_active (map remove_active links)"
  by (simp add: at_most_one_active_def no_active_cleared)

lemma at_most_one_add_active_at: "at_most_one_active (add_active_at i (map remove_active links))"
  unfolding at_most_one_active_def by (rule one_active_after_add) (rule no_active_cleared)

lemma callback_keeps_at_most_one:
  "at_most_one_active links \<Longrightarrow>
   at_most_one_active (links_after (sectionObserver_callback qs entries links))"
proof (induction entries arbitrary: links)
  case Nil
  then show ?case by simp
next
  case (Cons entry entries)
  show ?case
  proof (cases "isIntersecting entry")
    case False
    with Cons show ?thesis by simp
  next
    case True
    let ?cleared = "map remove_active links"
    show ?thesis
    proof (cases "qs (activeLink_selector (target_id entry)) ?cleared")
      case (Found i)
      with True Cons.IH [OF at_most_one_add_active_at [of i links]] show ?thesis
        by (simp add: Let_def)
    next
      case NotFound
      with True Cons.IH [OF at_most_one_cleared [of links]] show ?thesis
        by (simp add: Let_def)
    next
      case SyntaxError
      with True at_most_one_cleared [of links] show ?thesis
        by (simp add: Let_def)
    qed
  qed
qed

lemma callback_establishes_at_most_one:
  "\<exists>e \<in> set entries. isIntersecting e \<Longrightarrow>
   at_most_one_active (links_after (sectionObserver_callback qs entries links))"
proof (induction entries arbitrary: links)
  case Nil
  then show ?case by simp
next
  case (Cons entry entries)
  show ?case
  proof (cases "isIntersecting entry")
    case False
    with Cons show ?thesis by simp
  next
    case True
    let ?cleared = "map remove_active links"
    show ?thesis
    proof (cases "qs (activeLink_selector (target_id entry)) ?cleared")
      case (Found i)
      with True callback_keeps_at_most_one [OF at_most_one_add_active_at [of i links]]
      show ?thesis by (simp add: Let_def)
    next
      case NotFound
      with True callback_keeps_at_most_one [OF at_most_one_cleared [of links]]
      show ?thesis by (simp add: Let_def)
    next
      case SyntaxError
      with True at_most_one_cleared [of links] show ?thesis
        by (simp add: Let_def)
    qed
  qed
qed

lemma callback_nothing_intersecting:
  "\<forall>e \<in> set entries. \<not> isIntersecting e \<Longrightarrow>
   sectionObserver_callback qs entries links = Returned links"
  by (induction entries) simp_all

lemma remove_active_add_active: "remove_active (add_active l) = remove_active l"
  by (simp add: remove_active_def add_active_def classList_remove_def classList_add_def)

lemma remove_active_idem: "remove_active (remove_active l) = remove_active l"
  by (simp add: remove_active_def classList_remove_def)

lemma remove_active_comp: "remove_active \<circ> remove_active = remove_active"
  by (rule ext) (simp add: remove_active_idem)

lemma cleared_idem: "map remove_active (map remove_active links) = map remove_active links"
  by (simp add: remove_active_comp)

lemma cleared_add_active_at:
  "map remove_active (add_active_at i (map remove_active links)) = map remove_active links"
  by (simp add: add_active_at_def map_update remove_active_add_active remove_active_comp
      remove_active_idem list_update_same_conv)

lemma highlight_only_cleared:
  "highlight_only qs sid (map remove_active links) = highlight_only qs sid links"
  unfolding highlight_only_def cleared_idem ..

lemma highlight_only_add_active_at:
  "highlight_only qs sid (add_active_at i (map remove_active links)) = highlight_only qs sid links"
  unfolding highlight_only_def cleared_add_active_at ..

lemma callback_last_wins:
  "sectionObserver_callback qs entries links = Returned links' \<Longrightarrow>
   filter isIntersecting entries \<noteq> [] \<Longrightarrow>
   links' = highlight_only qs (target_id (last (filter isIntersecting entries))) links"
proof (induction entries arbitrary: links)
  case Nil
  then show ?case by simp
next
  case (Cons entry entries)
  show ?case
  proof (cases "isIntersecting entry")
    case False
    with Cons show ?thesis by simp
  next
    case True
    let ?cleared = "map remove_active links"
    let ?q = "qs (activeLink_selector (target_id entry)) ?cleared"
    from True Cons.prems(1) have ok: "?q \<noteq> SyntaxError"
      by (auto simp: Let_def)
    define next_links where
      "next_links = (case ?q of Found i \<Rightarrow> add_active_at i ?cleared | _ \<Rightarrow> ?cleared)"
    have step: "sectionObserver_callback qs (entry # entries) links =
                sectionObserver_callback qs entries next_links"
      using True ok by (simp add: Let_def next_links_def split: query_result.splits)
    have hl: "highlight_only qs sid next_links = highlight_only qs sid links" for sid
      by (simp add: next_links_def highlight_only_cleared highlight_only_add_active_at
          split: query_result.splits)
    have here: "next_links = highlight_only qs (target_id entry) links"
      by (simp add: next_links_def highlight_only_def Let_def split: query_result.splits)
    show ?thesis
    proof (cases "filter isIntersecting entries = []")
      case True
      then have "\<forall>e \<in> set entries. \<not> isIntersecting e"
        by (simp add: filter_empty_conv)
      then have "sectionObserver_callback qs entries next_links = Returned next_links"
        by (rule callback_nothing_intersecting)
      with step Cons.prems(1) have "links' = next_links"
        by simp
      with here True \<open>isIntersecting entry\<close> show ?thesis
        by simp
    next
      case False
      from step Cons.prems(1)
      have "sectionObserver_callback qs entries next_links = Returned links'"
        by simp
      from Cons.IH [OF this False]
      have "links' = highlight_only qs (target_id (last (filter isIntersecting entries))) next_links" .
      with hl False \<open>isIntersecting entry\<close> show ?thesis
        by simp
    qed
  qed
qed

text \<open>
  C10, as stated: after every invocation of the callback at most one nav link is active,
  from any starting state. It fails when no entry is intersecting: the callback then
  touches nothing, and two links that were active stay active.
\<close>

theorem sectionObserver_leaves_two_active:
  "\<not> at_most_one_active
       (links_after (sectionObserver_callback data_section_engine leaving_home two_active_links))"
  by (simp add: leaving_home_def two_active_links_def at_most_one_active_def is_active_def
      classList_contains_def)

text \<open>
  C10, amended: an invocation in which no entry is intersecting leaves the nav links as
  they are; an invocation in which some entry is intersecting, or which starts with at most
  one active link, ends with at most one active link, whatever the selector engine answers;
  and when the callback returns after some intersecting entry, the links are the starting
  ones with \<^verbatim>\<open>active\<close> removed from all and added only to the link the selector finds
  for the identifier of the last intersecting entry, if any.
\<close>

theorem sectionObserver_at_most_one_active:
  "((\<forall>e \<in> set entries. \<not> isIntersecting e) \<longrightarrow>
      sectionObserver_callback qs entries links = Returned links) \<and>
   ((\<exists>e \<in> set entries. isIntersecting e) \<or> at_most_one_active links \<longrightarrow>
      at_most_one_active (links_after (sectionObserver_callback qs entries links))) \<and>
   ((\<exists>e \<in> set entries. isIntersecting e) \<and>
    sectionObserver_callback qs entries links = Returned links' \<longrightarrow>
      links' = highlight_only qs (target_id (last (filter isIntersecting entries))) links)"
proof (intro conjI impI)
  assume "\<forall>e \<in> set entries. \<not> isIntersecting e"
  then show "sectionObserver_callback qs entries links = Returned links"
    by (rule callback_nothing_intersecting)
next
  assume "(\<exists>e \<in> set entries. isIntersecting e) \<or> at_most_one_active links"
  then show "at_most_one_active (links_after (sectionObserver_callback qs entries links))"
    using callback_establishes_at_most_one callback_keeps_at_most_one by blast
next
  assume a: "(\<exists>e \<in> set entries. isIntersecting e) \<and>
    sectionObserver_callback qs entries links = Returned links'"
  then have "filter isIntersecting entries \<noteq> []"
    by (simp add: filter_empty_conv)
  with a show "links' = highlight_only qs (target_id (last (filter isIntersecting entries))) links"
    using callback_last_wins by blast
qed

theorem sectionObserver_at_most_one_active_witness:
  "list_all (\<lambda>e. \<not> isIntersecting e) leaving_home \<and>
   sectionObserver_callback data_section_engine leaving_home two_active_links =
     Returned two_active_links \<and>
   list_ex isIntersecting entering_about \<and>
   sectionObserver_callback data_section_engine entering_about two_active_links =
     Returned [\<lparr> link_classes = [''nav-link''], data_section = Some ''home'' \<rparr>,
               \<lparr> link_classes = [''nav-link'', ''active''], data_section = Some ''about'' \<rparr>] \<and>
   at_most_one_active
     (links_after (sectionObserver_callback data_section_engine entering_about two_active_links)) \<and>
   highlight_only data_section_engine (target_id (last (filter isIntersecting entering_about)))
     two_active_links =
     [\<lparr> link_classes = [''nav-link''], data_section = Some ''home'' \<rparr>,
      \<lparr> link_classes = [''nav-link'', ''active''], data_section = Some ''about'' \<rparr>]"
proof -
  have h1: "\<forall>e \<in> set leaving_home. \<not> isIntersecting e"
    by (simp add: leaving_home_def)
  have h2: "\<exists>e \<in> set entering_about. isIntersecting e"
    by (simp add: entering_about_def)
  have run: "sectionObserver_callback data_section_engine entering_about two_active_links =
     Returned [\<lparr> link_classes = [''nav-link''], data_section = Some ''home'' \<rparr>,
               \<lparr> link_classes = [''nav-link'', ''active''], data_section = Some ''about'' \<rparr>]"
    by code_simp
  note t1 = sectionObserver_at_most_one_active
    [of leaving_home data_section_engine two_active_links two_active_links]
  note t2 = sectionObserver_at_most_one_active
    [of entering_about data_section_engine two_active_links
      "[\<lparr> link_classes = [''nav-link''], data_section = Some ''home'' \<rparr>,
        \<lparr> link_classes = [''nav-link'', ''active''], data_section = Some ''about'' \<rparr>]"]
  from h1 t1 have r1: "sectionObserver_callback data_section_engine leaving_home two_active_links =
     Returned two_active_links"
    by blast
  from h2 t2 have r2: "at_most_one_active
     (links_after (sectionObserver_callback data_section_engine entering_about two_active_links))"
    by blast
  from h2 run t2 have r3:
    "highlight_only data_section_engine (target_id (last (filter isIntersecting entering_about)))
       two_active_links =
     [\<lparr> link_classes = [''nav-link''], data_section = Some ''home'' \<rparr>,
      \<lparr> link_classes = [''nav-link'', ''active''], data_section = Some ''about'' \<rparr>]"
    by metis
  from h1 h2 run r1 r2 r3 show ?thesis
    by (simp add: list_all_iff list_ex_iff)
qed

section \<open>Timers: facts\<close>

lemma timer_delay_small: "delay < 2147483648 \<Longrightarrow> timer_delay delay = delay"
  by (simp add: timer_delay_def)

lemma filter_enqueue:
  assumes "\<not> P tm"
  shows "filter P (enqueue tm q) = filter P q"
proof -
  let ?early = "\<lambda>x. due x \<le> due tm"
  have "filter P (enqueue tm q) = filter P (takeWhile ?early q) @ filter P (dropWhile ?early q)"
    using assms by (simp add: enqueue_def)
  also have "\<dots> = filter P (takeWhile ?early q @ dropWhile ?early q)"
    by (simp only: filter_append)
  also have "\<dots> = filter P q"
    by (simp only: takeWhile_dropWhile_id)
  finally show ?thesis .
qed

lemma enqueue_past_prefix:
  "\<forall>x \<in> set p. due x \<le> due tm \<Longrightarrow> enqueue tm (p @ q) = p @ enqueue tm q"
  by (simp add: enqueue_def takeWhile_append2 dropWhile_append2)

lemma beyond_Nil: "beyond t []"
  by (simp add: beyond_def)

lemma beyond_enqueue: "t < due tm \<Longrightarrow> beyond t q \<Longrightarrow> beyond t (enqueue tm q)"
  by (cases q) (simp_all add: beyond_def enqueue_def)

lemma beyond_dropWhile: "beyond t (dropWhile (\<lambda>x. due x \<le> t) q)"
  by (induction q) (simp_all add: beyond_def)

lemma run_until_stop:
  "beyond t (timers w) \<Longrightarrow> run_until fire t w = Some (w\<lparr> clock := max (clock w) t \<rparr>)"
  by (subst run_until.simps) (simp add: beyond_def split: list.splits)

lemma run_until_step:
  "timers w = tm # rest \<Longrightarrow> due tm \<le> t \<Longrightarrow>
   run_until fire t w =
     run_until fire t (fire (on_fire tm) (w\<lparr> timers := rest, clock := max (clock w) (due tm) \<rparr>))"
  by (subst run_until.simps) simp

lemma run_until_idle:
  "timers w = [] \<Longrightarrow> run_until fire t w = Some (w\<lparr> clock := max (clock w) t \<rparr>)"
  by (rule run_until_stop) (simp add: beyond_def)

lemma run_until_not_yet:
  "timers w = [tm] \<Longrightarrow> t < due tm \<Longrightarrow> run_until fire t w = Some (w\<lparr> clock := max (clock w) t \<rparr>)"
  by (rule run_until_stop) (simp add: beyond_def)

lemma run_until_last_timer:
  assumes "timers w = [tm]" and "due tm \<le> t"
    and "timers (fire (on_fire tm) (w\<lparr> timers := [], clock := max (clock w) (due tm) \<rparr>)) = []"
  shows "run_until fire t w =
     Some ((fire (on_fire tm) (w\<lparr> timers := [], clock := max (clock w) (due tm) \<rparr>))
            \<lparr> clock := max (clock (fire (on_fire tm)
                 (w\<lparr> timers := [], clock := max (clock w) (due tm) \<rparr>))) t \<rparr>)"
  unfolding run_until_step [OF assms(1,2)]
  by (rule run_until_idle) (rule assms(3))

section \<open>Contact form: the address pattern\<close>

lemma regex_test_Once:
  "regex_test ((a, Once) # r) s = (\<exists>c v. s = c # v \<and> atom_matches a c \<and> regex_test r v)"
  by (cases s) simp_all

lemma regex_test_OneOrMore:
  "regex_test ((a, OneOrMore) # r) s =
     (\<exists>u v. s = u @ v \<and> u \<noteq> [] \<and> list_all (atom_matches a) u \<and> regex_test r v)"
proof (induction s)
  case Nil
  show ?case by simp
next
  case (Cons c s)
  show ?case
  proof
    assume "regex_test ((a, OneOrMore) # r) (c # s)"
    then have c: "atom_matches a c"
      and more: "regex_test ((a, OneOrMore) # r) s \<or> regex_test r s"
      by simp_all
    from more show "\<exists>u v. c # s = u @ v \<and> u \<noteq> [] \<and> list_all (atom_matches a) u \<and> regex_test r v"
    proof
      assume "regex_test ((a, OneOrMore) # r) s"
      with Cons.IH obtain u v where "s = u @ v" "list_all (atom_matches a) u" "regex_test r v"
        by blast
      with c have "c # s = (c # u) @ v \<and> c # u \<noteq> [] \<and> list_all (atom_matches a) (c # u) \<and>
          regex_test r v"
        by simp
      then show ?thesis by blast
    next
      assume "regex_test r s"
      with c have "c # s = [c] @ s \<and> [c] \<noteq> [] \<and> list_all (atom_matches a) [c] \<and> regex_test r s"
        by simp
      then show ?thesis by blast
    qed
  next
    assume "\<exists>u v. c # s = u @ v \<and> u \<noteq> [] \<and> list_all (atom_matches a) u \<and> regex_test r v"
    then obtain u v where split: "c # s = u @ v" and ne: "u \<noteq> []"
      and all: "list_all (atom_matches a) u" and rest: "regex_test r v"
      by blast
    from ne obtain u' where u: "u = c # u'" and s: "s = u' @ v"
      using split by (cases u) simp_all
    from all u have c: "atom_matches a c" and all': "list_all (atom_matches a) u'"
      by simp_all
    show "regex_test ((a, OneOrMore) # r) (c # s)"
    proof (cases "u' = []")
      case True
      with s rest c show ?thesis by simp
    next
      case False
      with s all' rest have "regex_test ((a, OneOrMore) # r) s"
        using Cons.IH by blast
      with c show ?thesis by simp
    qed
  qed
qed

lemma atom_matches_plain: "atom_matches (NoneOf [WhiteSpace, Unit 0x40]) = plain_unit"
  by (rule ext) (simp add: plain_unit_def)

text \<open>The pattern of the source accepts exactly the addresses of the specified shape.\<close>

lemma emailRegex_shape: "regex_test emailRegex e = local_domain_tld_shape e"
proof
  assume "regex_test emailRegex e"
  then obtain l r1 where 1: "e = l @ r1" "l \<noteq> []" "list_all plain_unit l"
    and m1: "regex_test [(Exactly 0x40, Once), (NoneOf [WhiteSpace, Unit 0x40], OneOrMore),
               (Exactly 0x2E, Once), (NoneOf [WhiteSpace, Unit 0x40], OneOrMore)] r1"
    unfolding emailRegex_def regex_test_OneOrMore [of _ _ e] atom_matches_plain by blast
  from m1 obtain r2 where 2: "r1 = 0x40 # r2"
    and m2: "regex_test [(NoneOf [WhiteSpace, Unit 0x40], OneOrMore),
               (Exactly 0x2E, Once), (NoneOf [WhiteSpace, Unit 0x40], OneOrMore)] r2"
    unfolding regex_test_Once [of _ _ r1] by auto
  from m2 obtain d r3 where 3: "r2 = d @ r3" "d \<noteq> []" "list_all plain_unit d"
    and m3: "regex_test [(Exactly 0x2E, Once), (NoneOf [WhiteSpace, Unit 0x40], OneOrMore)] r3"
    unfolding regex_test_OneOrMore [of _ _ r2] atom_matches_plain by blast
  from m3 obtain r4 where 4: "r3 = 0x2E # r4"
    and m4: "regex_test [(NoneOf [WhiteSpace, Unit 0x40], OneOrMore)] r4"
    unfolding regex_test_Once [of _ _ r3] by auto
  from m4 obtain t r5 where 5: "r4 = t @ r5" "t \<noteq> []" "list_all plain_unit t"
    and m5: "regex_test [] r5"
    unfolding regex_test_OneOrMore [of _ _ r4] atom_matches_plain by blast
  from m5 have 6: "r5 = []"
    by simp
  have "e = l @ [0x40] @ d @ [0x2E] @ t"
    by (simp add: 1 2 3 4 5 6)
  with 1 3 5 show "local_domain_tld_shape e"
    unfolding local_domain_tld_shape_def by blast
next
  assume "local_domain_tld_shape e"
  then obtain l d t where e: "e = l @ [0x40] @ d @ [0x2E] @ t"
    and ne: "l \<noteq> []" "d \<noteq> []" "t \<noteq> []"
    and pl: "list_all plain_unit l" "list_all plain_unit d" "list_all plain_unit t"
    unfolding local_domain_tld_shape_def by blast
  have m5: "regex_test [(NoneOf [WhiteSpace, Unit 0x40], OneOrMore)] t"
    unfolding regex_test_OneOrMore [of _ _ t] atom_matches_plain
    using ne pl by (intro exI [of _ t] exI [of _ "[]"]) simp
  then have m4: "regex_test [(Exactly 0x2E, Once), (NoneOf [WhiteSpace, Unit 0x40], OneOrMore)]
      ([0x2E] @ t)"
    by simp
  have m3: "regex_test [(NoneOf [WhiteSpace, Unit 0x40], OneOrMore),
               (Exactly 0x2E, Once), (NoneOf [WhiteSpace, Unit 0x40], OneOrMore)]
      (d @ [0x2E] @ t)"
    unfolding regex_test_OneOrMore [of _ _ "d @ [0x2E] @ t"] atom_matches_plain
    using ne pl m4 by (intro exI [of _ d] exI [of _ "[0x2E] @ t"]) simp
  then have m2: "regex_test [(Exactly 0x40, Once), (NoneOf [WhiteSpace, Unit 0x40], OneOrMore),
               (Exactly 0x2E, Once), (NoneOf [WhiteSpace, Unit 0x40], OneOrMore)]
      ([0x40] @ d @ [0x2E] @ t)"
    by simp
  show "regex_test emailRegex e"
    unfolding emailRegex_def e
      regex_test_OneOrMore [of _ _ "l @ [0x40] @ d @ [0x2E] @ t"] atom_matches_plain
    using ne pl m2 by (intro exI [of _ l] exI [of _ "[0x40] @ d @ [0x2E] @ t"]) simp
qed

section \<open>Contact form: results\<close>

lemma showFormMessage_effect:
  "dom (showFormMessage m ty w) =
     (dom w)\<lparr> formMessage_textContent := m, formMessage_className := ''form-message '' @ ty \<rparr>"
  "timers (showFormMessage m ty w) =
     enqueue (Timer (next_timer_id w) (clock w + 5000) HideFormMessage) (timers w)"
  "clock (showFormMessage m ty w) = clock w"
  "next_timer_id (showFormMessage m ty w) = Suc (next_timer_id w)"
  by (simp_all add: showFormMessage_def setTimeout_def timer_delay_def)

lemma submission_pending_showFormMessage:
  "submission_pending (showFormMessage m ty w) = submission_pending w"
  by (simp add: submission_pending_def showFormMessage_effect filter_enqueue)

lemma handleFormSubmit_empty:
  assumes "trim (fullName_value (dom w)) = [] \<or> trim (email_value (dom w)) = [] \<or>
           trim (subject_value (dom w)) = [] \<or> trim (message_value (dom w)) = []"
  shows "handleFormSubmit w = showFormMessage ''Please fill in all fields.'' ''error'' w"
  using assms by (auto simp: handleFormSubmit_def Let_def)

lemma handleFormSubmit_malformed:
  assumes "trim (fullName_value (dom w)) \<noteq> []" "trim (email_value (dom w)) \<noteq> []"
    "trim (subject_value (dom w)) \<noteq> []" "trim (message_value (dom w)) \<noteq> []"
    "\<not> regex_test emailRegex (trim (email_value (dom w)))"
  shows "handleFormSubmit w = showFormMessage ''Please enter a valid email address.'' ''error'' w"
  using assms by (simp add: handleFormSubmit_def Let_def)

lemma handleFormSubmit_valid:
  assumes "trim (fullName_value (dom w)) \<noteq> []" "trim (email_value (dom w)) \<noteq> []"
    "trim (subject_value (dom w)) \<noteq> []" "trim (message_value (dom w)) \<noteq> []"
    "regex_test emailRegex (trim (email_value (dom w)))"
  shows "dom (handleFormSubmit w) =
           (dom w)\<lparr> submitBtn_disabled := True, submitBtn_textContent := ''Sending...'' \<rparr>"
    and "timers (handleFormSubmit w) =
           enqueue (Timer (next_timer_id w) (clock w + 2000) FinishSubmission) (timers w)"
    and "clock (handleFormSubmit w) = clock w"
  using assms by (simp_all add: handleFormSubmit_def Let_def setTimeout_def timer_delay_def)

text \<open>
  C2: when at least one of the four fields is empty after trimming, the handler shows
  \<^verbatim>\<open>Please fill in all fields.\<close> as an error, sets no timer for a submission (only the
  one that hides the message after 5000 ms), and leaves the submit button, its label and
  the field values as they were.
\<close>

theorem empty_field_rejected:
  assumes "trim (fullName_value (dom w)) = [] \<or> trim (email_value (dom w)) = [] \<or>
           trim (subject_value (dom w)) = [] \<or> trim (message_value (dom w)) = []"
  shows "formMessage_textContent (dom (handleFormSubmit w)) = ''Please fill in all fields.'' \<and>
         formMessage_className (dom (handleFormSubmit w)) = ''form-message error'' \<and>
         submission_pending (handleFormSubmit w) = submission_pending w \<and>
         timers (handleFormSubmit w) =
           enqueue (Timer (next_timer_id w) (clock w + 5000) HideFormMessage) (timers w) \<and>
         submitBtn_disabled (dom (handleFormSubmit w)) = submitBtn_disabled (dom w) \<and>
         submitBtn_textContent (dom (handleFormSubmit w)) = submitBtn_textContent (dom w) \<and>
         fullName_value (dom (handleFormSubmit w)) = fullName_value (dom w) \<and>
         email_value (dom (handleFormSubmit w)) = email_value (dom w) \<and>
         subject_value (dom (handleFormSubmit w)) = subject_value (dom w) \<and>
         message_value (dom (handleFormSubmit w)) = message_value (dom w)"
  unfolding handleFormSubmit_empty [OF assms]
  by (simp add: showFormMessage_effect submission_pending_showFormMessage)

theorem empty_field_rejected_witness:
  "trim (subject_value (dom (blank_page\<lparr> dom := (dom blank_page)
      \<lparr> fullName_value := [0x4A], email_value := [0x61, 0x40, 0x62, 0x2E, 0x63],
        subject_value := [0x20, 0x09], message_value := [0x79] \<rparr> \<rparr>))) = [] \<and>
   formMessage_textContent (dom (handleFormSubmit (blank_page\<lparr> dom := (dom blank_page)
      \<lparr> fullName_value := [0x4A], email_value := [0x61, 0x40, 0x62, 0x2E, 0x63],
        subject_value := [0x20, 0x09], message_value := [0x79] \<rparr> \<rparr>))) =
     ''Please fill in all fields.'' \<and>
   formMessage_className (dom (handleFormSubmit (blank_page\<lparr> dom := (dom blank_page)
      \<lparr> fullName_value := [0x4A], email_value := [0x61, 0x40, 0x62, 0x2E, 0x63],
        subject_value := [0x20, 0x09], message_value := [0x79] \<rparr> \<rparr>))) =
     ''form-message error'' \<and>
   timers (handleFormSubmit (blank_page\<lparr> dom := (dom blank_page)
      \<lparr> fullName_value := [0x4A], email_value := [0x61, 0x40, 0x62, 0x2E, 0x63],
        subject_value := [0x20, 0x09], message_value := [0x79] \<rparr> \<rparr>)) =
     [Timer 1 5000 HideFormMessage] \<and>
   \<not> submitBtn_disabled (dom (handleFormSubmit (blank_page\<lparr> dom := (dom blank_page)
      \<lparr> fullName_value := [0x4A], email_value := [0x61, 0x40, 0x62, 0x2E, 0x63],
        subject_value := [0x20, 0x09], message_value := [0x79] \<rparr> \<rparr>)))"
proof -
  let ?w = "blank_page\<lparr> dom := (dom blank_page)
      \<lparr> fullName_value := [0x4A], email_value := [0x61, 0x40, 0x62, 0x2E, 0x63],
        subject_value := [0x20, 0x09], message_value := [0x79] \<rparr> \<rparr>"
  have h: "trim (subject_value (dom ?w)) = []"
    by (simp add: trim_def is_js_whitespace_def)
  then have "trim (fullName_value (dom ?w)) = [] \<or> trim (email_value (dom ?w)) = [] \<or>
           trim (subject_value (dom ?w)) = [] \<or> trim (message_value (dom ?w)) = []"
    by blast
  from empty_field_rejected [OF this] h show ?thesis
    by (simp add: blank_page_def enqueue_def)
qed

text \<open>
  C3: when all four fields are non-empty after trimming and the trimmed address does not
  have the shape \<^verbatim>\<open>local@domain.tld\<close>, the handler shows
  \<^verbatim>\<open>Please enter a valid email address.\<close> as an error, sets no timer for a submission
  and leaves the submit button and the field values as they were.
\<close>

theorem malformed_email_rejected:
  assumes "trim (fullName_value (dom w)) \<noteq> []" and "trim (email_value (dom w)) \<noteq> []"
    and "trim (subject_value (dom w)) \<noteq> []" and "trim (message_value (dom w)) \<noteq> []"
    and "\<not> local_domain_tld_shape (trim (email_value (dom w)))"
  shows "formMessage_textContent (dom (handleFormSubmit w)) =
           ''Please enter a valid email address.'' \<and>
         formMessage_className (dom (handleFormSubmit w)) = ''form-message error'' \<and>
         submission_pending (handleFormSubmit w) = submission_pending w \<and>
         timers (handleFormSubmit w) =
           enqueue (Timer (next_timer_id w) (clock w + 5000) HideFormMessage) (timers w) \<and>
         submitBtn_disabled (dom (handleFormSubmit w)) = submitBtn_disabled (dom w) \<and>
         submitBtn_textContent (dom (handleFormSubmit w)) = submitBtn_textContent (dom w) \<and>
         fullName_value (dom (handleFormSubmit w)) = fullName_value (dom w) \<and>
         email_value (dom (handleFormSubmit w)) = email_value (dom w) \<and>
         subject_value (dom (handleFormSubmit w)) = subject_value (dom w) \<and>
         message_value (dom (handleFormSubmit w)) = message_value (dom w)"
proof -
  from assms(5) have "\<not> regex_test emailRegex (trim (email_value (dom w)))"
    by (simp add: emailRegex_shape)
  from handleFormSubmit_malformed [OF assms(1-4) this] show ?thesis
    by (simp add: showFormMessage_effect submission_pending_showFormMessage)
qed

theorem malformed_email_rejected_witness:
  "trim (fullName_value (dom (filled_page [0x20, 0x61, 0x40, 0x62, 0x63]))) \<noteq> [] \<and>
   trim (email_value (dom (filled_page [0x20, 0x61, 0x40, 0x62, 0x63]))) = [0x61, 0x40, 0x62, 0x63] \<and>
   trim (subject_value (dom (filled_page [0x20, 0x61, 0x40, 0x62, 0x63]))) \<noteq> [] \<and>
   trim (message_value (dom (filled_page [0x20, 0x61, 0x40, 0x62, 0x63]))) \<noteq> [] \<and>
   \<not> local_domain_tld_shape (trim (email_value (dom (filled_page [0x20, 0x61, 0x40, 0x62, 0x63])))) \<and>
   formMessage_textContent (dom (handleFormSubmit (filled_page [0x20, 0x61, 0x40, 0x62, 0x63]))) =
     ''Please enter a valid email address.'' \<and>
   formMessage_className (dom (handleFormSubmit (filled_page [0x20, 0x61, 0x40, 0x62, 0x63]))) =
     ''form-message error'' \<and>
   timers (handleFormSubmit (filled_page [0x20, 0x61, 0x40, 0x62, 0x63])) =
     [Timer 1 5000 HideFormMessage] \<and>
   \<not> submitBtn_disabled (dom (handleFormSubmit (filled_page [0x20, 0x61, 0x40, 0x62, 0x63])))"
proof -
  let ?w = "filled_page [0x20, 0x61, 0x40, 0x62, 0x63]"
  have t: "trim (fullName_value (dom ?w)) = [0x4A, 0x6F]"
    "trim (email_value (dom ?w)) = [0x61, 0x40, 0x62, 0x63]"
    "trim (subject_value (dom ?w)) = [0x48, 0x69]"
    "trim (message_value (dom ?w)) = [0x79, 0x6F]"
    by (simp_all add: filled_page_def blank_page_def trim_def is_js_whitespace_def)
  have "\<not> regex_test emailRegex [0x61, 0x40, 0x62, 0x63]"
    by (simp add: emailRegex_def is_js_whitespace_def)
  then have s: "\<not> local_domain_tld_shape (trim (email_value (dom ?w)))"
    by (simp add: t emailRegex_shape)
  have ne: "trim (fullName_value (dom ?w)) \<noteq> []" "trim (email_value (dom ?w)) \<noteq> []"
    "trim (subject_value (dom ?w)) \<noteq> []" "trim (message_value (dom ?w)) \<noteq> []"
    by (simp_all add: t)
  from malformed_email_rejected [OF ne s] ne s t(2) show ?thesis
    by (simp add: filled_page_def blank_page_def enqueue_def)
qed

lemma fire_FinishSubmission_effect:
  "form_reset_and_confirmed (dom (fire_form FinishSubmission w))"
  "timers (fire_form FinishSubmission w) =
     enqueue (Timer (next_timer_id w) (clock w + 5000) HideFormMessage) (timers w)"
  "clock (fire_form FinishSubmission w) = clock w"
  by (simp_all add: form_reset_and_confirmed_def Let_def showFormMessage_effect)

lemma fire_HideFormMessage_effect:
  "timers (fire_form HideFormMessage w) = timers w"
  "clock (fire_form HideFormMessage w) = clock w"
  by simp_all

text \<open>
  The event loop up to the due time \<open>t\<close> of a pending submission timer: every timer queued
  before it is due no later and fires first; whatever these callbacks queue is due after
  \<open>t\<close>; so the submission callback is the last to run by \<open>t\<close>.
\<close>

lemma run_until_submission:
  assumes "timers v = early @ Timer i t FinishSubmission # late"
    and "\<forall>x \<in> set early. due x \<le> t"
    and "beyond t late"
    and "clock v \<le> t" and "t < c + 5000" and "c \<le> clock v"
  shows "\<exists>v'. run_until fire_form t v = Some v' \<and> form_reset_and_confirmed (dom v') \<and>
              clock v' = t"
  using assms
proof (induction early arbitrary: v late)
  case Nil
  let ?v0 = "v\<lparr> timers := late, clock := max (clock v) (due (Timer i t FinishSubmission)) \<rparr>"
  let ?v1 = "fire_form FinishSubmission ?v0"
  from Nil have tm: "timers v = Timer i t FinishSubmission # late"
    by simp
  have c0: "clock ?v0 = t"
    using Nil.prems(4) by simp
  have step: "run_until fire_form t v = run_until fire_form t ?v1"
    using run_until_step [OF tm, of t fire_form] by simp
  have "beyond t (timers ?v1)"
    unfolding fire_FinishSubmission_effect(2)
    using Nil.prems(3) c0 by (intro beyond_enqueue) (simp_all del: fire_form.simps)
  then have "run_until fire_form t ?v1 = Some (?v1\<lparr> clock := max (clock ?v1) t \<rparr>)"
    by (rule run_until_stop)
  moreover have "form_reset_and_confirmed (dom (?v1\<lparr> clock := max (clock ?v1) t \<rparr>))"
    using fire_FinishSubmission_effect(1) [of ?v0] by (simp del: fire_form.simps)
  moreover have "clock (?v1\<lparr> clock := max (clock ?v1) t \<rparr>) = t"
    using c0 by (simp add: fire_FinishSubmission_effect(3) del: fire_form.simps)
  ultimately show ?case
    unfolding step by blast
next
  case (Cons a early)
  let ?rest = "early @ Timer i t FinishSubmission # late"
  let ?v0 = "v\<lparr> timers := ?rest, clock := max (clock v) (due a) \<rparr>"
  let ?v1 = "fire_form (on_fire a) ?v0"
  from Cons.prems(1) have tm: "timers v = a # ?rest"
    by simp
  from Cons.prems(2) have da: "due a \<le> t" and early: "\<forall>x \<in> set early. due x \<le> t"
    by simp_all
  have step: "run_until fire_form t v = run_until fire_form t ?v1"
    using run_until_step [OF tm da, of fire_form] by simp
  have c0: "clock ?v0 \<le> t" "c \<le> clock ?v0"
    using Cons.prems(4,6) da by simp_all
  show ?case
  proof (cases "on_fire a")
    case HideFormMessage
    have "timers ?v1 = early @ Timer i t FinishSubmission # late"
      by (simp add: HideFormMessage)
    moreover have "clock ?v1 \<le> t" "c \<le> clock ?v1"
      using c0 by (simp_all add: HideFormMessage)
    ultimately show ?thesis
      unfolding step using Cons.IH early Cons.prems(3,5) by blast
  next
    case FinishSubmission
    let ?hide = "Timer (next_timer_id ?v0) (clock ?v0 + 5000) HideFormMessage"
    have later: "t < due ?hide"
      using c0(2) Cons.prems(5) by simp
    have "\<forall>x \<in> set (early @ [Timer i t FinishSubmission]). due x \<le> due ?hide"
      using early later by auto
    then have "enqueue ?hide ((early @ [Timer i t FinishSubmission]) @ late) =
        (early @ [Timer i t FinishSubmission]) @ enqueue ?hide late"
      by (rule enqueue_past_prefix)
    then have "timers ?v1 = early @ Timer i t FinishSubmission # enqueue ?hide late"
      by (simp add: FinishSubmission fire_FinishSubmission_effect(2) del: fire_form.simps)
    moreover have "beyond t (enqueue ?hide late)"
      using later Cons.prems(3) by (rule beyond_enqueue)
    moreover have "clock ?v1 \<le> t" "c \<le> clock ?v1"
      using c0 by (simp_all add: FinishSubmission fire_FinishSubmission_effect(3) del: fire_form.simps)
    ultimately show ?thesis
      unfolding step using Cons.IH early Cons.prems(5) by blast
  qed
qed

text \<open>
  C4: when all four fields are non-empty after trimming and the trimmed address matches the
  pattern, the handler at once disables the submit button (label \<^verbatim>\<open>Sending...\<close>) and
  sets the submission timer 2000 ms ahead, leaving the fields as they are; and when the
  event loop has run up to that time, the four fields are empty, the success message shows,
  and the button is enabled again with its label \<^verbatim>\<open>Send Message\<close>. This holds whatever
  timers were pending before.
\<close>

theorem valid_submission:
  assumes "trim (fullName_value (dom w)) \<noteq> []" and "trim (email_value (dom w)) \<noteq> []"
    and "trim (subject_value (dom w)) \<noteq> []" and "trim (message_value (dom w)) \<noteq> []"
    and "regex_test emailRegex (trim (email_value (dom w)))"
  shows "submitBtn_disabled (dom (handleFormSubmit w)) \<and>
         submitBtn_textContent (dom (handleFormSubmit w)) = ''Sending...'' \<and>
         fullName_value (dom (handleFormSubmit w)) = fullName_value (dom w) \<and>
         email_value (dom (handleFormSubmit w)) = email_value (dom w) \<and>
         subject_value (dom (handleFormSubmit w)) = subject_value (dom w) \<and>
         message_value (dom (handleFormSubmit w)) = message_value (dom w) \<and>
         formMessage_className (dom (handleFormSubmit w)) = formMessage_className (dom w) \<and>
         timers (handleFormSubmit w) =
           enqueue (Timer (next_timer_id w) (clock w + 2000) FinishSubmission) (timers w) \<and>
         (\<exists>w'. run_until fire_form (clock w + 2000) (handleFormSubmit w) = Some w' \<and>
               form_reset_and_confirmed (dom w') \<and> clock w' = clock w + 2000)"
proof -
  note hv = handleFormSubmit_valid [OF assms]
  let ?t = "clock w + 2000"
  let ?early = "takeWhile (\<lambda>x. due x \<le> ?t) (timers w)"
  let ?late = "dropWhile (\<lambda>x. due x \<le> ?t) (timers w)"
  have q: "timers (handleFormSubmit w) = ?early @ Timer (next_timer_id w) ?t FinishSubmission # ?late"
    by (simp add: hv(2) enqueue_def)
  have e: "\<forall>x \<in> set ?early. due x \<le> ?t"
    by (auto dest: set_takeWhileD)
  have l: "beyond ?t ?late"
    by (rule beyond_dropWhile)
  have "\<exists>w'. run_until fire_form ?t (handleFormSubmit w) = Some w' \<and>
          form_reset_and_confirmed (dom w') \<and> clock w' = ?t"
    by (rule run_until_submission [OF q e l, of "clock w"]) (simp_all add: hv(3))
  then show ?thesis
    by (simp add: hv)
qed

theorem valid_submission_witness:
  "trim (fullName_value (dom (filled_page [0x20, 0x61, 0x40, 0x62, 0x2E, 0x63]))) \<noteq> [] \<and>
   trim (email_value (dom (filled_page [0x20, 0x61, 0x40, 0x62, 0x2E, 0x63]))) =
     [0x61, 0x40, 0x62, 0x2E, 0x63] \<and>
   trim (subject_value (dom (filled_page [0x20, 0x61, 0x40, 0x62, 0x2E, 0x63]))) \<noteq> [] \<and>
   trim (message_value (dom (filled_page [0x20, 0x61, 0x40, 0x62, 0x2E, 0x63]))) \<noteq> [] \<and>
   regex_test emailRegex (trim (email_value (dom (filled_page [0x20, 0x61, 0x40, 0x62, 0x2E, 0x63])))) \<and>
   submitBtn_disabled (dom (handleFormSubmit (filled_page [0x20, 0x61, 0x40, 0x62, 0x2E, 0x63]))) \<and>
   timers (handleFormSubmit (filled_page [0x20, 0x61, 0x40, 0x62, 0x2E, 0x63])) =
     [Timer 1 2000 FinishSubmission] \<and>
   (\<exists>w'. run_until fire_form 2000 (handleFormSubmit (filled_page [0x20, 0x61, 0x40, 0x62, 0x2E, 0x63]))
            = Some w' \<and>
          form_reset_and_confirmed (dom w') \<and> clock w' = 2000)"
proof -
  let ?w = "filled_page [0x20, 0x61, 0x40, 0x62, 0x2E, 0x63]"
  have t: "trim (fullName_value (dom ?w)) = [0x4A, 0x6F]"
    "trim (email_value (dom ?w)) = [0x61, 0x40, 0x62, 0x2E, 0x63]"
    "trim (subject_value (dom ?w)) = [0x48, 0x69]"
    "trim (message_value (dom ?w)) = [0x79, 0x6F]"
    by (simp_all add: filled_page_def blank_page_def trim_def is_js_whitespace_def)
  have m: "regex_test emailRegex (trim (email_value (dom ?w)))"
    unfolding t by (simp add: emailRegex_def is_js_whitespace_def)
  have ne: "trim (fullName_value (dom ?w)) \<noteq> []" "trim (email_value (dom ?w)) \<noteq> []"
    "trim (subject_value (dom ?w)) \<noteq> []" "trim (message_value (dom ?w)) \<noteq> []"
    by (simp_all add: t)
  have c: "clock ?w = 0" "timers ?w = []" "next_timer_id ?w = 1"
    by (simp_all add: filled_page_def blank_page_def)
  from valid_submission [OF ne m] ne m t(2) show ?thesis
    by (simp add: c enqueue_def)
qed

text \<open>
  When no other timer is pending, a message does stay on display for 5000 ms and is hidden
  from then on.
\<close>

lemma lone_message_shown_for_5000:
  assumes "timers w = []"
  shows "map_option (\<lambda>w'. formMessage_className (dom w'))
           (run_until fire_form T (showFormMessage m ty w)) =
         Some (if clock w + 5000 \<le> T then ''form-message'' else ''form-message '' @ ty)"
proof -
  let ?s = "showFormMessage m ty w"
  let ?tm = "Timer (next_timer_id w) (clock w + 5000) HideFormMessage"
  have q: "timers ?s = [?tm]"
    by (simp add: showFormMessage_effect assms enqueue_def)
  show ?thesis
  proof (cases "clock w + 5000 \<le> T")
    case True
    then have d: "due ?tm \<le> T"
      by simp
    have "timers (fire_form (on_fire ?tm) (?s\<lparr> timers := [], clock := max (clock ?s) (due ?tm) \<rparr>)) = []"
      by simp
    from run_until_last_timer [where fire = fire_form, OF q d this] True show ?thesis
      by simp
  next
    case False
    then have "T < due ?tm"
      by simp
    from run_until_not_yet [OF q this] False show ?thesis
      by (simp add: showFormMessage_effect)
  qed
qed

text \<open>
  C9: a validation error is to stay on display for 5000 ms. The timer that hides the
  message is never cancelled, so the timer of an earlier message hides a later one. On a
  blank form, submitted at time 0 and again at time 4000, the second error message is on
  display at time 4000 and hidden at time 5000, after 1000 ms; its own timer, due at 9000,
  is still pending.
\<close>

theorem second_error_hidden_early:
  "run_until fire_form 4000 (handleFormSubmit blank_page) = Some resubmit_at_4000 \<and>
   clock (handleFormSubmit resubmit_at_4000) = 4000 \<and>
   formMessage_className (dom (handleFormSubmit resubmit_at_4000)) = ''form-message error'' \<and>
   formMessage_textContent (dom (handleFormSubmit resubmit_at_4000)) =
     ''Please fill in all fields.'' \<and>
   run_until fire_form 5000 (handleFormSubmit resubmit_at_4000) = Some hidden_at_5000 \<and>
   clock hidden_at_5000 = 5000 \<and>
   formMessage_className (dom hidden_at_5000) = ''form-message'' \<and>
   timers hidden_at_5000 = [Timer 2 9000 HideFormMessage]"
proof -
  have e: "trim [] = []"
    by (simp add: trim_def)
  have 1: "handleFormSubmit blank_page =
      blank_page\<lparr> next_timer_id := 2, timers := [Timer 1 5000 HideFormMessage],
        dom := (dom blank_page)\<lparr> formMessage_textContent := ''Please fill in all fields.'',
          formMessage_className := ''form-message error'' \<rparr> \<rparr>"
    by (simp add: handleFormSubmit_def Let_def e blank_page_def showFormMessage_def
        setTimeout_def timer_delay_def enqueue_def)
  have 2: "run_until fire_form 4000 (handleFormSubmit blank_page) = Some resubmit_at_4000"
    unfolding 1
    by (subst run_until.simps) (simp add: blank_page_def resubmit_at_4000_def)
  have 3: "handleFormSubmit resubmit_at_4000 =
      resubmit_at_4000\<lparr> next_timer_id := 3,
        timers := [Timer 1 5000 HideFormMessage, Timer 2 9000 HideFormMessage] \<rparr>"
    by (simp add: handleFormSubmit_def Let_def e resubmit_at_4000_def showFormMessage_def
        setTimeout_def timer_delay_def enqueue_def)
  have 4: "run_until fire_form 5000 (handleFormSubmit resubmit_at_4000) = Some hidden_at_5000"
    unfolding 3
    apply (subst run_until.simps)
    apply (simp add: resubmit_at_4000_def)
    apply (subst run_until.simps)
    apply (simp add: hidden_at_5000_def)
    done
  show ?thesis
    unfolding 2 4 unfolding 3
    by (simp add: resubmit_at_4000_def hidden_at_5000_def)
qed

section \<open>Debounce and throttle: results\<close>

lemma executedFunction_rearms:
  assumes "timers v = [] \<and> timeout (dom v) = None \<or>
           (\<exists>h d a. timers v = [Timer h d (Later a)] \<and> timeout (dom v) = Some h)"
  shows "timers (executedFunction wait args v) =
           [Timer (next_timer_id v) (clock v + timer_delay wait) (Later args)]"
    and "timeout (dom (executedFunction wait args v)) = Some (next_timer_id v)"
    and "invoked (dom (executedFunction wait args v)) = invoked (dom v)"
    and "clock (executedFunction wait args v) = clock v"
  using assms
  by (auto simp: executedFunction_def clearTimeout_def setTimeout_def enqueue_def Let_def)

lemma debounce_rearmed:
  assumes "timers v = [Timer h (clock v + wait) (Later a)]"
    and "timeout (dom v) = Some h"
    and "invoked (dom v) = []"
    and "\<forall>c \<in> set calls. fst c < wait"
    and "wait < 2147483648"
  shows "\<exists>v' h'. call_sequence (fire_debounce func) (executedFunction wait) calls v = Some v' \<and>
           timers v' = [Timer h' (clock v' + wait) (Later (last (a # map snd calls)))] \<and>
           timeout (dom v') = Some h' \<and> invoked (dom v') = [] \<and>
           clock v' = clock v + sum_list (map fst calls)"
  using assms
proof (induction calls arbitrary: v h a)
  case Nil
  then show ?case by simp
next
  case (Cons c calls)
  obtain g b where c: "c = (g, b)"
    by (cases c)
  from Cons.prems(4) c have g: "g < wait" and rest: "\<forall>c \<in> set calls. fst c < wait"
    by simp_all
  let ?v0 = "v\<lparr> clock := clock v + g \<rparr>"
  let ?v1 = "executedFunction wait b ?v0"
  have run: "run_until (fire_debounce func) (clock v + g) v = Some ?v0"
    using g run_until_not_yet [OF Cons.prems(1), of "clock v + g"] by simp
  have pre: "timers ?v0 = [] \<and> timeout (dom ?v0) = None \<or>
           (\<exists>h d a. timers ?v0 = [Timer h d (Later a)] \<and> timeout (dom ?v0) = Some h)"
    using Cons.prems(1,2) by simp
  note ex = executedFunction_rearms [OF pre, of wait b]
  have 1: "timers ?v1 = [Timer (next_timer_id v) (clock ?v1 + wait) (Later b)]"
    using ex(1) ex(4) by (simp add: timer_delay_small [OF Cons.prems(5)])
  have 2: "timeout (dom ?v1) = Some (next_timer_id v)"
    using ex(2) by simp
  have 3: "invoked (dom ?v1) = []"
    using ex(3) Cons.prems(3) by simp
  from Cons.IH [OF 1 2 3 rest Cons.prems(5)] obtain v' h' where
    r: "call_sequence (fire_debounce func) (executedFunction wait) calls ?v1 = Some v'"
      "timers v' = [Timer h' (clock v' + wait) (Later (last (b # map snd calls)))]"
      "timeout (dom v') = Some h'" "invoked (dom v') = []"
      "clock v' = clock ?v1 + sum_list (map fst calls)"
    by blast
  have "call_sequence (fire_debounce func) (executedFunction wait) (c # calls) v = Some v'"
    unfolding c call_sequence.simps run using r(1) by simp
  moreover have "clock v' = clock v + sum_list (map fst (c # calls))"
    using r(5) ex(4) by (simp add: c)
  moreover have "last (a # map snd (c # calls)) = last (b # map snd calls)"
    by (simp add: c)
  ultimately show ?case
    using r(2,3,4) by metis
qed

text \<open>
  C5, as stated: for every wait time, \<^verbatim>\<open>func\<close> is invoked at the time of the last call
  plus \<open>wait\<close>. It fails for a wait of \<open>2 ^ 31\<close> ms, which the browser takes as no delay:
  after a single call at time 10, \<^verbatim>\<open>func\<close> is on record at time 10, and so it is at
  time 100, where nothing should have happened yet.
\<close>

theorem debounce_long_wait_fires_at_once:
  "debounce_invocations quiet 2147483648 0 1 [(10, ''first'')] 100 = Some [(10, ''first'')]"
proof -
  let ?fresh = "debounce 0 1 :: string debounce_page"
  let ?v0 = "?fresh\<lparr> clock := 10 \<rparr>"
  let ?v1 = "executedFunction 2147483648 ''first'' ?v0"
  let ?tm = "Timer 1 10 (Later ''first'') :: string debounce_callback timer"
  have run: "run_until (fire_debounce quiet) (clock ?fresh + 10) ?fresh = Some ?v0"
    using run_until_idle [of ?fresh "fire_debounce quiet" "clock ?fresh + 10"]
    by (simp add: debounce_def)
  have pre: "timers ?v0 = [] \<and> timeout (dom ?v0) = None \<or>
           (\<exists>h d a. timers ?v0 = [Timer h d (Later a)] \<and> timeout (dom ?v0) = Some h)"
    by (simp add: debounce_def)
  note ex = executedFunction_rearms [OF pre, of 2147483648 "''first''"]
  have q: "timers ?v1 = [?tm]"
    using ex(1) by (simp add: timer_delay_def debounce_def)
  have seq: "call_sequence (fire_debounce quiet) (executedFunction 2147483648) [(10, ''first'')] ?fresh
      = Some ?v1"
    unfolding call_sequence.simps run by simp
  let ?f = "fire_debounce quiet (on_fire ?tm) (?v1\<lparr> timers := [], clock := max (clock ?v1) (due ?tm) \<rparr>)"
  have f: "timers ?f = []" "invoked (dom ?f) = [(10, ''first'')]"
    using ex(2,3,4) by (simp_all add: clearTimeout_def Let_def quiet_def debounce_def)
  have d: "due ?tm \<le> 100"
    by simp
  from run_until_last_timer [where fire = "fire_debounce quiet", OF q d f(1)] f(2)
  have "map_option (\<lambda>w'. invoked (dom w')) (run_until (fire_debounce quiet) 100 ?v1) =
      Some [(10, ''first'')]"
    by simp
  then show ?thesis
    unfolding debounce_invocations_def seq by simp
qed

text \<open>
  C5, amended: \<open>wait\<close> is less than \<open>2 ^ 31\<close> ms and \<^verbatim>\<open>func\<close>, returning or throwing,
  leaves the debounced function and the timers alone. A fresh debounced function is called
  one or more times, each call after the first less than \<open>wait\<close> after the call before it.
  Then \<^verbatim>\<open>func\<close> has not been invoked at any time before \<open>wait\<close> has passed since the
  last call, and from then on it has been invoked exactly once: at the time of the last call
  plus \<open>wait\<close>, with the arguments of the last call.
\<close>

theorem debounce_fires_once_after_last_call:
  assumes "wait < 2147483648"
    and "\<forall>a w. snd (func a w) = w"
    and "\<forall>c \<in> set later_calls. fst c < wait"
  shows "debounce_invocations func wait now handle ((gap, args) # later_calls) T =
     Some (if now + gap + sum_list (map fst later_calls) + wait \<le> T
           then [(now + gap + sum_list (map fst later_calls) + wait,
                  last (args # map snd later_calls))]
           else [])"
proof -
  let ?fresh = "debounce now handle :: 'a debounce_page"
  let ?v0 = "?fresh\<lparr> clock := clock ?fresh + gap \<rparr>"
  let ?v1 = "executedFunction wait args ?v0"
  let ?last = "now + gap + sum_list (map fst later_calls)"
  have run: "run_until (fire_debounce func) (clock ?fresh + gap) ?fresh = Some ?v0"
    using run_until_idle [of ?fresh "fire_debounce func" "clock ?fresh + gap"]
    by (simp add: debounce_def)
  have pre: "timers ?v0 = [] \<and> timeout (dom ?v0) = None \<or>
           (\<exists>h d a. timers ?v0 = [Timer h d (Later a)] \<and> timeout (dom ?v0) = Some h)"
    by (simp add: debounce_def)
  note ex = executedFunction_rearms [OF pre, of wait args]
  have c1: "clock ?v1 = now + gap"
    using ex(4) by (simp add: debounce_def)
  have 1: "timers ?v1 = [Timer (next_timer_id ?v0) (clock ?v1 + wait) (Later args)]"
    using ex(1) ex(4) by (simp add: timer_delay_small [OF assms(1)])
  have 3: "invoked (dom ?v1) = []"
    using ex(3) by (simp add: debounce_def)
  from debounce_rearmed [OF 1 ex(2) 3 assms(3) assms(1), of func] obtain v' h' where
    r: "call_sequence (fire_debounce func) (executedFunction wait) later_calls ?v1 = Some v'"
      "timers v' = [Timer h' (clock v' + wait) (Later (last (args # map snd later_calls)))]"
      "timeout (dom v') = Some h'" "invoked (dom v') = []"
      "clock v' = ?last"
    unfolding c1 by blast
  have seq: "call_sequence (fire_debounce func) (executedFunction wait)
      ((gap, args) # later_calls) ?fresh = Some v'"
    unfolding call_sequence.simps run using r(1) by simp
  have "map_option (\<lambda>w'. invoked (dom w')) (run_until (fire_debounce func) T v') =
     Some (if ?last + wait \<le> T then [(?last + wait, last (args # map snd later_calls))] else [])"
  proof (cases "?last + wait \<le> T")
    case True
    let ?tm = "Timer h' (clock v' + wait) (Later (last (args # map snd later_calls)))"
    let ?f = "fire_debounce func (on_fire ?tm)
        (v'\<lparr> timers := [], clock := max (clock v') (due ?tm) \<rparr>)"
    have d: "due ?tm \<le> T"
      using True r(5) by simp
    have f: "timers ?f = []" "invoked (dom ?f) = [(?last + wait, last (args # map snd later_calls))]"
      using r(3,4,5) assms(2) by (simp_all add: clearTimeout_def Let_def)
    from run_until_last_timer [where fire = "fire_debounce func", OF r(2) d f(1)] f(2) True
    show ?thesis
      by simp
  next
    case False
    then have "T < due (Timer h' (clock v' + wait) (Later (last (args # map snd later_calls))))"
      using r(5) by simp
    from run_until_not_yet [OF r(2) this] r(4) False show ?thesis
      by simp
  qed
  then show ?thesis
    unfolding debounce_invocations_def seq by simp
qed

theorem debounce_fires_once_after_last_call_witness:
  "(250::nat) < 2147483648 \<and>
   (\<forall>a w. snd ((quiet :: string debounce_func) a w) = w) \<and>
   list_all (\<lambda>c. fst c < (250::nat)) [(100, ''second''), (249, ''third'')] \<and>
   debounce_invocations quiet 250 0 1 [(10, ''first''), (100, ''second''), (249, ''third'')] 608 =
     Some [] \<and>
   debounce_invocations quiet 250 0 1 [(10, ''first''), (100, ''second''), (249, ''third'')] 609 =
     Some [(609, ''third'')] \<and>
   debounce_invocations quiet 250 0 1 [(10, ''first''), (100, ''second''), (249, ''third'')] 5000 =
     Some [(609, ''third'')]"
proof -
  have w: "(250::nat) < 2147483648"
    by simp
  have q: "\<forall>a w. snd ((quiet :: string debounce_func) a w) = w"
    by (simp add: quiet_def)
  have h: "\<forall>c \<in> set [(100, ''second''), (249, ''third'')]. fst c < (250::nat)"
    by simp
  from debounce_fires_once_after_last_call
      [OF w q h, where now = 0 and handle = 1 and gap = 10 and args = "''first''" and T = 608]
    debounce_fires_once_after_last_call
      [OF w q h, where now = 0 and handle = 1 and gap = 10 and args = "''first''" and T = 609]
    debounce_fires_once_after_last_call
      [OF w q h, where now = 0 and handle = 1 and gap = 10 and args = "''first''" and T = 5000]
    q
  show ?thesis
    by simp
qed

lemma throttled_event_quiet_first:
  assumes "\<forall>a w. func a w = (Return, w)" and "inThrottle (dom v) \<noteq> Some True"
  shows "timers (throttled_event func limit args v) =
           enqueue (Timer (next_timer_id v) (clock v + timer_delay limit) Release) (timers v)"
    and "inThrottle (dom (throttled_event func limit args v)) = Some True"
    and "calls_made (dom (throttled_event func limit args v)) = calls_made (dom v) @ [(clock v, args)]"
    and "clock (throttled_event func limit args v) = clock v"
  using assms by (simp_all add: throttled_event_def throttled_call_def setTimeout_def)

lemma throttled_event_suppressed:
  "inThrottle (dom v) = Some True \<Longrightarrow> throttled_event func limit args v = v"
  by (simp add: throttled_event_def throttled_call_def)

lemma throttled_event_failing:
  "inThrottle (dom v) \<noteq> Some True \<Longrightarrow>
   throttled_event failing limit args v =
     v\<lparr> dom := (dom v)\<lparr> calls_made := calls_made (dom v) @ [(clock v, args)] \<rparr> \<rparr>"
  by (simp add: throttled_event_def throttled_call_def failing_def)

lemma throttle_suppressed:
  assumes "timers v = [Timer h d Release]"
    and "inThrottle (dom v) = Some True"
    and "clock v + sum_list (map fst calls) < d"
  shows "call_sequence fire_throttle (throttled_event func limit) calls v =
           Some (v\<lparr> clock := clock v + sum_list (map fst calls) \<rparr>)"
  using assms
proof (induction calls arbitrary: v)
  case Nil
  then show ?case by simp
next
  case (Cons c calls)
  obtain g b where c: "c = (g, b)"
    by (cases c)
  let ?v0 = "v\<lparr> clock := clock v + g \<rparr>"
  from Cons.prems(3) c have g: "clock v + g < d"
    by simp
  have run: "run_until fire_throttle (clock v + g) v = Some ?v0"
    using g run_until_not_yet [OF Cons.prems(1), of "clock v + g"] by simp
  have same: "throttled_event func limit b ?v0 = ?v0"
    using Cons.prems(2) by (intro throttled_event_suppressed) simp
  have "call_sequence fire_throttle (throttled_event func limit) calls ?v0 =
          Some (?v0\<lparr> clock := clock ?v0 + sum_list (map fst calls) \<rparr>)"
    using Cons.prems c by (intro Cons.IH) simp_all
  then show ?case
    unfolding c call_sequence.simps run by (simp add: same add.assoc)
qed

text \<open>
  C6, as stated: for every function and every limit, calls within the window invoke
  \<^verbatim>\<open>func\<close> once. It fails for a \<^verbatim>\<open>func\<close> that throws: the exception leaves the
  closure before \<^verbatim>\<open>inThrottle\<close> is set, so the call 100 ms after the first, well within
  a limit of 250 ms, invokes \<^verbatim>\<open>func\<close> again. It fails also for a limit of \<open>2 ^ 31\<close> ms,
  which the browser takes as no delay: the throttle is released at once.
\<close>

theorem throttle_invoked_again_in_window:
  "throttle_invocations failing 250 0 1 [(10, ''first''), (100, ''second'')] 200 =
     Some [(10, ''first''), (110, ''second'')] \<and>
   throttle_invocations quiet 2147483648 0 1 [(10, ''first''), (100, ''second'')] 200 =
     Some [(10, ''first''), (110, ''second'')]"
proof
  let ?fresh = "throttle 0 1 :: string throttle_page"
  let ?v0 = "?fresh\<lparr> clock := 10 \<rparr>"
  let ?v1 = "?v0\<lparr> dom := (dom ?v0)\<lparr> calls_made := [(10, ''first'')] \<rparr> \<rparr>"
  let ?v2 = "?v1\<lparr> clock := 110 \<rparr>"
  let ?v3 = "?v2\<lparr> dom := (dom ?v2)\<lparr> calls_made := [(10, ''first''), (110, ''second'')] \<rparr> \<rparr>"
  have r1: "run_until fire_throttle (clock ?fresh + 10) ?fresh = Some ?v0"
    using run_until_idle [of ?fresh fire_throttle "clock ?fresh + 10"]
    by (simp add: throttle_def)
  have e1: "throttled_event failing 250 ''first'' ?v0 = ?v1"
    by (simp add: throttled_event_failing throttle_def)
  have r2: "run_until fire_throttle (clock ?v1 + 100) ?v1 = Some ?v2"
    using run_until_idle [of ?v1 fire_throttle "clock ?v1 + 100"]
    by (simp add: throttle_def)
  have e2: "throttled_event failing 250 ''second'' ?v2 = ?v3"
    by (simp add: throttled_event_failing throttle_def)
  have seq: "call_sequence fire_throttle (throttled_event failing 250)
      [(10, ''first''), (100, ''second'')] ?fresh = Some ?v3"
    unfolding call_sequence.simps r1 option.case e1 r2 e2 ..
  have "run_until fire_throttle 200 ?v3 = Some (?v3\<lparr> clock := max (clock ?v3) 200 \<rparr>)"
    by (rule run_until_idle) (simp add: throttle_def)
  then show "throttle_invocations failing 250 0 1 [(10, ''first''), (100, ''second'')] 200 =
     Some [(10, ''first''), (110, ''second'')]"
    unfolding throttle_invocations_def seq by simp
next
  let ?fresh = "throttle 0 1 :: string throttle_page"
  let ?v0 = "?fresh\<lparr> clock := 10 \<rparr>"
  let ?v1 = "?v0\<lparr> next_timer_id := 2, timers := [Timer 1 10 Release],
      dom := \<lparr> inThrottle = Some True, calls_made = [(10, ''first'')] \<rparr> \<rparr>"
  let ?v2 = "?v0\<lparr> next_timer_id := 2, clock := 110,
      dom := \<lparr> inThrottle = Some False, calls_made = [(10, ''first'')] \<rparr> \<rparr>"
  let ?v3 = "?v0\<lparr> next_timer_id := 3, clock := 110, timers := [Timer 2 110 Release],
      dom := \<lparr> inThrottle = Some True, calls_made = [(10, ''first''), (110, ''second'')] \<rparr> \<rparr>"
  let ?v4 = "?v0\<lparr> next_timer_id := 3, clock := 200,
      dom := \<lparr> inThrottle = Some False, calls_made = [(10, ''first''), (110, ''second'')] \<rparr> \<rparr>"
  have r1: "run_until fire_throttle (clock ?fresh + 10) ?fresh = Some ?v0"
    using run_until_idle [of ?fresh fire_throttle "clock ?fresh + 10"]
    by (simp add: throttle_def)
  have e1: "throttled_event quiet 2147483648 ''first'' ?v0 = ?v1"
    by (simp add: throttled_event_def throttled_call_def quiet_def setTimeout_def
        timer_delay_def enqueue_def throttle_def)
  have r2: "run_until fire_throttle (clock ?v1 + 100) ?v1 = Some ?v2"
    apply (subst run_until.simps)
    apply (simp add: throttle_def)
    apply (subst run_until.simps)
    apply simp
    done
  have e2: "throttled_event quiet 2147483648 ''second'' ?v2 = ?v3"
    by (simp add: throttled_event_def throttled_call_def quiet_def setTimeout_def
        timer_delay_def enqueue_def throttle_def)
  have seq: "call_sequence fire_throttle (throttled_event quiet 2147483648)
      [(10, ''first''), (100, ''second'')] ?fresh = Some ?v3"
    unfolding call_sequence.simps r1 option.case e1 r2 e2 ..
  have r3: "run_until fire_throttle 200 ?v3 = Some ?v4"
    apply (subst run_until.simps)
    apply (simp add: throttle_def)
    apply (subst run_until.simps)
    apply simp
    done
  show "throttle_invocations quiet 2147483648 0 1 [(10, ''first''), (100, ''second'')] 200 =
     Some [(10, ''first''), (110, ''second'')]"
    unfolding throttle_invocations_def seq option.case r3 by simp
qed

text \<open>
  C6, amended: \<^verbatim>\<open>func\<close> returns and leaves the throttled function and the timers alone.
  A fresh throttled function is called once, or it is called several times, the limit being
  less than \<open>2 ^ 31\<close> ms and the last call less than \<open>limit\<close> after the first. Then
  \<^verbatim>\<open>func\<close> has been invoked exactly once: at the time of the first call, with the
  arguments of the first call; and nothing that fires later adds an invocation.
\<close>

theorem throttle_fires_once_at_first_call:
  assumes "\<forall>a w. func a w = (Return, w)"
    and "later_calls = [] \<or> limit < 2147483648 \<and> sum_list (map fst later_calls) < limit"
  shows "throttle_invocations func limit now handle ((gap, args) # later_calls) T =
           Some [(now + gap, args)]"
proof -
  let ?fresh = "throttle now handle :: 'a throttle_page"
  let ?v0 = "?fresh\<lparr> clock := clock ?fresh + gap \<rparr>"
  let ?v1 = "throttled_event func limit args ?v0"
  let ?tm = "Timer handle (now + gap + timer_delay limit) Release"
  have run: "run_until fire_throttle (clock ?fresh + gap) ?fresh = Some ?v0"
    using run_until_idle [of ?fresh fire_throttle "clock ?fresh + gap"] by (simp add: throttle_def)
  have fresh: "inThrottle (dom ?v0) \<noteq> Some True"
    by (simp add: throttle_def)
  note first = throttled_event_quiet_first [OF assms(1) fresh, of limit args]
  have v1: "timers ?v1 = [?tm]" "inThrottle (dom ?v1) = Some True"
    "calls_made (dom ?v1) = [(now + gap, args)]" "clock ?v1 = now + gap"
    using first by (simp_all add: throttle_def enqueue_def)
  have "\<exists>v2. call_sequence fire_throttle (throttled_event func limit) later_calls ?v1 = Some v2 \<and>
          timers v2 = [?tm] \<and> calls_made (dom v2) = [(now + gap, args)]"
    using assms(2)
  proof
    assume "later_calls = []"
    then show ?thesis
      using v1 by simp
  next
    assume a: "limit < 2147483648 \<and> sum_list (map fst later_calls) < limit"
    then have "clock ?v1 + sum_list (map fst later_calls) < now + gap + timer_delay limit"
      using v1(4) by (simp add: timer_delay_small)
    from throttle_suppressed [OF v1(1,2) this, of func limit] v1 show ?thesis
      by simp
  qed
  then obtain v2 where
    rest: "call_sequence fire_throttle (throttled_event func limit) later_calls ?v1 = Some v2"
    and v2: "timers v2 = [?tm]" "calls_made (dom v2) = [(now + gap, args)]"
    by blast
  have seq: "call_sequence fire_throttle (throttled_event func limit)
      ((gap, args) # later_calls) ?fresh = Some v2"
    unfolding call_sequence.simps run using rest by simp
  have "map_option (\<lambda>w'. calls_made (dom w')) (run_until fire_throttle T v2) =
     Some [(now + gap, args)]"
  proof (cases "due ?tm \<le> T")
    case True
    let ?f = "fire_throttle (on_fire ?tm) (v2\<lparr> timers := [], clock := max (clock v2) (due ?tm) \<rparr>)"
    have f: "timers ?f = []" "calls_made (dom ?f) = [(now + gap, args)]"
      using v2(2) by simp_all
    from run_until_last_timer [where fire = fire_throttle, OF v2(1) True f(1)] f(2) show ?thesis
      by simp
  next
    case False
    then have "T < due ?tm"
      by simp
    from run_until_not_yet [OF v2(1) this] v2(2) show ?thesis
      by simp
  qed
  then show ?thesis
    unfolding throttle_invocations_def seq by simp
qed

theorem throttle_fires_once_at_first_call_witness:
  "(\<forall>a w. (quiet :: string throttle_func) a w = (Return, w)) \<and>
   (250::nat) < 2147483648 \<and>
   sum_list (map fst [(100, ''second''), (149, ''third'')]) < (250::nat) \<and>
   throttle_invocations quiet 250 0 1 [(10, ''first''), (100, ''second''), (149, ''third'')] 259 =
     Some [(10, ''first'')] \<and>
   throttle_invocations quiet 250 0 1 [(10, ''first''), (100, ''second''), (149, ''third'')] 5000 =
     Some [(10, ''first'')] \<and>
   throttle_invocations quiet 0 0 1 [(10, ''only'')] 5000 = Some [(10, ''only'')]"
proof -
  have q: "\<forall>a w. (quiet :: string throttle_func) a w = (Return, w)"
    by (simp add: quiet_def)
  have h: "[(100, ''second''), (149, ''third'')] = [] \<or>
      (250::nat) < 2147483648 \<and> sum_list (map fst [(100, ''second''), (149, ''third'')]) < (250::nat)"
    by simp
  have s: "([] :: (nat \<times> string) list) = [] \<or>
      (0::nat) < 2147483648 \<and> sum_list (map fst ([] :: (nat \<times> string) list)) < (0::nat)"
    by simp
  note t1 = throttle_fires_once_at_first_call
      [OF q h, where now = 0 and handle = 1 and gap = 10 and args = "''first''" and T = 259]
  note t2 = throttle_fires_once_at_first_call
      [OF q h, where now = 0 and handle = 1 and gap = 10 and args = "''first''" and T = 5000]
  note t3 = throttle_fires_once_at_first_call
      [OF q s, where now = 0 and handle = 1 and gap = 10 and args = "''only''" and T = 5000]
  have r1: "throttle_invocations quiet 250 0 1
      [(10, ''first''), (100, ''second''), (149, ''third'')] 259 = Some [(10, ''first'')]"
    using t1 by simp
  have r2: "throttle_invocations quiet 250 0 1
      [(10, ''first''), (100, ''second''), (149, ''third'')] 5000 = Some [(10, ''first'')]"
    using t2 by simp
  have r3: "throttle_invocations quiet 0 0 1 [(10, ''only'')] 5000 = Some [(10, ''only'')]"
    using t3 by simp
  show ?thesis
    by (intro conjI q r1 r2 r3) simp_all
qed

end
